theory Spec2Isabelle
  imports Main "HOL-Library.AList"
begin

section \<open>Values, user functions and the tracking state\<close>

text \<open>
  JavaScript values as far as the instance layer inspects them. An object is given by its
  own enumerable data properties; \<open>JObj []\<close> is the literal \<open>{}\<close>.
\<close>

datatype jsval = Undefined | Null | JBool bool | JNum int | JStr string
  | JObj "(string \<times> jsval) list"

text \<open>A Dep is named by the reactive field it belongs to; a Watcher by its creation index.\<close>

type_synonym dep = string
type_synonym wid = nat

text \<open>
  User-supplied functions (\<open>data()\<close>, computed getters, watch callbacks, inject default
  factories) are inputs of the layer. A user function receives its receiver (\<open>this\<close>), its
  argument list and the user-visible world \<open>'w\<close>; it returns or throws (\<open>Inr\<close> the returned
  value, \<open>Inl\<close> the thrown one), reports the reactive fields it read, and leaves a new
  world. The module-private tracking state (target stack, watcher table, log) is out of
  its reach.
\<close>

datatype 'i arg = ArgVal jsval | ArgVm 'i

record 'w outcome =
  returned :: "jsval + jsval"
  touched :: "dep list"
  world_after :: 'w

type_synonym ('i, 'w) ufun = "'i \<Rightarrow> 'i arg list \<Rightarrow> 'w \<Rightarrow> 'w outcome"

text \<open>
  The log of calls that leave the layer: the warning hook, the error handler, every
  invocation of a user function (with the role it was called in, its receiver, its
  arguments and the value of \<open>Dep.target\<close> at the call), the observation toggle, and
  \<open>defineReactive\<close> (key, value, whether a custom setter was passed).
\<close>

datatype 'i event =
    Warned string 'i
  | HandledError jsval 'i string
  | Invoked string 'i "'i arg list" "wid option"
  | ToggledObserving bool
  | DefinedReactive 'i string jsval bool

text \<open>
  Modelled from the spec: what a Watcher owns. Its owner, the text of its expression, the
  getter the expression resolves to, its callback, the options \<open>lazy\<close> and \<open>user\<close>, the
  flags \<open>dirty\<close> and \<open>active\<close>, the cached value, the Deps it is subscribed to and the
  Deps touched by the evaluation under way.
\<close>

record ('i, 'w) watcher =
  w_vm :: 'i
  w_expression :: string
  w_getter :: "('i, 'w) ufun"
  w_cb :: "('i, 'w) ufun option"
  w_lazy :: bool
  w_user :: bool
  w_dirty :: bool
  w_active :: bool
  w_value :: jsval
  w_deps :: "dep list"
  w_newDeps :: "dep list"

text \<open>A reactive property as \<open>defineReactive\<close> leaves it: the stored value, whether the
  value got a child observer, and whether a custom setter was attached.\<close>

record rprop =
  rp_value :: jsval
  rp_childOb :: bool
  rp_customSetter :: bool

text \<open>The accessor pairs that \<open>defineComputed\<close> can install.\<close>

datatype ('i, 'w) pget = GetNoop | ComputedGetter string | GetterInvoker "('i, 'w) ufun"
datatype ('i, 'w) pset = SetNoop | SetWarn string | SetUser "('i, 'w) ufun"

text \<open>
  The state of one component instance together with the process-wide tracking state:
  \<open>targetStack\<close> is the active-target stack (its top is \<open>Dep.target\<close>), \<open>watchers\<close> the
  table of every Watcher created so far, \<open>subs\<close> the subscriber list of each Dep,
  \<open>vm_watchers\<close> is \<open>vm._watchers\<close>, \<open>computedWatchers\<close> is \<open>vm._computedWatchers\<close>
  (\<open>None\<close> while undefined), \<open>shouldObserve\<close> the global observation toggle,
  \<open>vm_reactive\<close> the reactive properties installed on the instance and
  \<open>vm_accessors\<close> the computed accessors installed on it.
\<close>

record ('i, 'w) state =
  world :: 'w
  targetStack :: "wid option list"
  watchers :: "('i, 'w) watcher list"
  subs :: "dep \<Rightarrow> wid list"
  vm_watchers :: "wid list"
  computedWatchers :: "(string \<times> wid) list option"
  shouldObserve :: bool
  vm_reactive :: "(string \<times> rprop) list"
  vm_accessors :: "(string \<times> ('i, 'w) pget \<times> ('i, 'w) pset) list"
  trace :: "'i event list"

subsection \<open>External collaborators\<close>

text \<open>
  Modelled from the spec: the warning hook \<open>warn(msg, vm)\<close>, purely advisory; it never
  affects control flow and only records the call.
\<close>

definition warn :: "string \<Rightarrow> 'i \<Rightarrow> ('i, 'w) state \<Rightarrow> ('i, 'w) state" where
  "warn msg vm s = s\<lparr>trace := trace s @ [Warned msg vm]\<rparr>"

text \<open>
  Modelled from the spec: the error-reporting hook
  \<open>handleError(error, owner, contextLabel)\<close>, called instead of crashing the evaluation
  pass; it records the call and returns.
\<close>

definition handleError :: "jsval \<Rightarrow> 'i \<Rightarrow> string \<Rightarrow> ('i, 'w) state \<Rightarrow> ('i, 'w) state" where
  "handleError e vm info s = s\<lparr>trace := trace s @ [HandledError e vm info]\<rparr>"

text \<open>A name between double quotes, as the messages of the layer print it.\<close>

definition quoted :: "string \<Rightarrow> string" where
  "quoted name = [CHR 0x22] @ name @ [CHR 0x22]"

text \<open>
  Modelled from the spec: \<open>Dep.target\<close>, the Watcher being evaluated, which is the top
  frame of the active-target stack (a frame may hold no Watcher).
\<close>

definition Dep_target :: "('i, 'w) state \<Rightarrow> wid option" where
  "Dep_target s = (case targetStack s of [] \<Rightarrow> None | t # _ \<Rightarrow> t)"

text \<open>
  Modelled from the spec: \<open>pushTarget(target)\<close>; pushing suspends tracking for the
  enclosing evaluator.
\<close>

definition pushTarget :: "wid option \<Rightarrow> ('i, 'w) state \<Rightarrow> ('i, 'w) state" where
  "pushTarget t s = s\<lparr>targetStack := t # targetStack s\<rparr>"

text \<open>
  Modelled from the spec: \<open>popTarget()\<close>; popping restores the enclosing evaluator.
\<close>

definition popTarget :: "('i, 'w) state \<Rightarrow> ('i, 'w) state" where
  "popTarget s = s\<lparr>targetStack := tl (targetStack s)\<rparr>"

text \<open>
  Modelled from the spec: what \<open>dep.depend()\<close> does to the active Watcher. The Dep joins
  the Watcher's new-dep set and the Watcher joins the Dep's subscribers, each guarded
  against duplicates.
\<close>

definition addDep :: "wid \<Rightarrow> dep \<Rightarrow> ('i, 'w) state \<Rightarrow> ('i, 'w) state" where
  "addDep w d s =
     (if w < length (watchers s) then
        let wr = watchers s ! w;
            wr' = (if d \<in> set (w_newDeps wr) then wr
                   else wr\<lparr>w_newDeps := w_newDeps wr @ [d]\<rparr>)
        in s\<lparr>watchers := (watchers s)[w := wr'],
              subs := (if w \<in> set (subs s d) then subs s
                       else (subs s)(d := subs s d @ [w]))\<rparr>
      else s)"

text \<open>
  Modelled from the spec: \<open>dep.depend()\<close>, which registers the Dep with the active target
  and does nothing without one.
\<close>

definition dep_depend :: "dep \<Rightarrow> ('i, 'w) state \<Rightarrow> ('i, 'w) state" where
  "dep_depend d s = (case Dep_target s of None \<Rightarrow> s | Some w \<Rightarrow> addDep w d s)"

text \<open>
  A call of a user function: it runs on the world, the call is logged, and every reactive
  field it read goes through \<open>dep.depend()\<close> (the getters installed by \<open>defineReactive\<close>).
\<close>

definition call_user ::
  "string \<Rightarrow> ('i, 'w) ufun \<Rightarrow> 'i \<Rightarrow> 'i arg list \<Rightarrow> ('i, 'w) state
     \<Rightarrow> (jsval + jsval) \<times> ('i, 'w) state" where
  "call_user role f this args s =
     (let out = f this args (world s);
          s1 = s\<lparr>world := world_after out,
                 trace := trace s @ [Invoked role this args (Dep_target s)]\<rparr>
      in (returned out, fold dep_depend (touched out) s1))"

section \<open>state.js: getData\<close>

text \<open>
  \<^verbatim>\<open>pushTarget(); try { return data.call(vm, vm) }
  catch (e) { handleError(e, vm, `data()`); return {} } finally { popTarget() }\<close>
\<close>

definition getData :: "('i, 'w) ufun \<Rightarrow> 'i \<Rightarrow> ('i, 'w) state \<Rightarrow> (jsval + jsval) \<times> ('i, 'w) state" where
  "getData data vm s =
     (let s1 = pushTarget None s in
      case call_user ''data'' data vm [ArgVm vm] s1 of
        (Inr v, s2) \<Rightarrow> (Inr v, popTarget s2)
      | (Inl e, s2) \<Rightarrow> (Inr (JObj []), popTarget (handleError e vm ''data()'' s2)))"

section \<open>inject.js: provide/inject resolution\<close>

text \<open>
  A component instance as the resolver sees it: its \<open>_provided\<close> mapping (absent until
  \<open>initProvide\<close> has run, or when the instance provides nothing) and its \<open>$parent\<close>. An
  instance is created under an already existing parent, so the ownership chain is finite
  and ends at the root (no parent).
\<close>

datatype component = Component (provided: "(string \<times> jsval) list option") (parent: "component option")

text \<open>
  A normalised inject option: for every own key the source key \<open>from\<close> and, when
  declared, the \<open>default\<close>, which is a function (a factory) or any other value.
  The list holds the own keys in the order the enumeration (\<open>Reflect.ownKeys\<close> or
  \<open>Object.keys\<close>) visits them.
\<close>

datatype ('i, 'w) dflt = Static jsval | Factory "('i, 'w) ufun"

record ('i, 'w) inject_entry =
  inj_from :: string
  inj_default :: "('i, 'w) dflt option"

text \<open>Modelled from the spec: \<open>hasOwn(obj, key)\<close>, whether the mapping contains the key.\<close>

definition hasOwn :: "(string \<times> jsval) list \<Rightarrow> string \<Rightarrow> bool" where
  "hasOwn obj key = (map_of obj key \<noteq> None)"

text \<open>A property read \<open>obj[key]\<close> on a plain mapping: \<open>undefined\<close> when the key is absent.\<close>

definition prop_get :: "(string \<times> jsval) list \<Rightarrow> string \<Rightarrow> jsval" where
  "prop_get obj key = (case map_of obj key of None \<Rightarrow> Undefined | Some v \<Rightarrow> v)"

text \<open>
  The walk \<^verbatim>\<open>while (source) { if (source._provided && hasOwn(source._provided, provideKey))
  break; source = source.$parent }\<close>: the value of \<open>source\<close> when the loop is left.
\<close>

fun find_source :: "component option \<Rightarrow> string \<Rightarrow> component option" where
  "find_source None provideKey = None"
| "find_source (Some (Component prov par)) provideKey =
     (if (case prov of None \<Rightarrow> False | Some p \<Rightarrow> hasOwn p provideKey)
      then Some (Component prov par)
      else find_source par provideKey)"

definition source_provided :: "component \<Rightarrow> string \<Rightarrow> jsval" where
  "source_provided source provideKey =
     (case provided source of None \<Rightarrow> Undefined | Some p \<Rightarrow> prop_get p provideKey)"

text \<open>
  The body of \<open>resolveInject\<close>'s loop over the keys; \<open>result\<close> is the object under
  construction (assignment keeps the position of a key that is already there). A
  throwing default factory ends the whole call.
\<close>

fun resolve_keys ::
  "bool \<Rightarrow> (string \<times> (component, 'w) inject_entry) list \<Rightarrow> component \<Rightarrow> (string \<times> jsval) list
     \<Rightarrow> (component, 'w) state \<Rightarrow> (jsval + (string \<times> jsval) list) \<times> (component, 'w) state" where
  "resolve_keys production [] vm result s = (Inr result, s)"
| "resolve_keys production ((key, e) # keys) vm result s =
     (if key = ''__ob__'' then resolve_keys production keys vm result s
      else case find_source (Some vm) (inj_from e) of
        Some source \<Rightarrow>
          resolve_keys production keys vm
            (AList.update key (source_provided source (inj_from e)) result) s
      | None \<Rightarrow>
          (case inj_default e of
            Some (Factory provideDefault) \<Rightarrow>
              (case call_user ''default'' provideDefault vm [] s of
                (Inl ex, s') \<Rightarrow> (Inl ex, s')
              | (Inr v, s') \<Rightarrow> resolve_keys production keys vm (AList.update key v result) s')
          | Some (Static provideDefault) \<Rightarrow>
              resolve_keys production keys vm (AList.update key provideDefault result) s
          | None \<Rightarrow>
              resolve_keys production keys vm result
                (if \<not> production
                 then warn (''Injection '' @ quoted key @ '' not found'') vm s
                 else s)))"

text \<open>\<open>resolveInject(inject, vm)\<close>: \<open>undefined\<close> (here \<open>None\<close>) when there is no inject option.\<close>

definition resolveInject ::
  "bool \<Rightarrow> (string \<times> (component, 'w) inject_entry) list option \<Rightarrow> component
     \<Rightarrow> (component, 'w) state \<Rightarrow> (jsval + (string \<times> jsval) list option) \<times> (component, 'w) state" where
  "resolveInject production inject vm s =
     (case inject of
        None \<Rightarrow> (Inr None, s)
      | Some entries \<Rightarrow>
          (case resolve_keys production entries vm [] s of
            (Inl ex, s') \<Rightarrow> (Inl ex, s')
          | (Inr result, s') \<Rightarrow> (Inr (Some result), s')))"

text \<open>
  Modelled from the spec: \<open>toggleObserving(bool)\<close>, the process-wide flag that disables
  recursive observation.
\<close>

definition toggleObserving :: "bool \<Rightarrow> ('i, 'w) state \<Rightarrow> ('i, 'w) state" where
  "toggleObserving v s = s\<lparr>shouldObserve := v, trace := trace s @ [ToggledObserving v]\<rparr>"

text \<open>
  Modelled from the spec: \<open>observe(value)\<close> creates an Observer only for a structured
  value and only while observation is enabled. The result says whether one was created;
  the values of the model carry no marker of an earlier observation.
\<close>

definition observe :: "jsval \<Rightarrow> ('i, 'w) state \<Rightarrow> bool" where
  "observe v s = (shouldObserve s \<and> (case v of JObj _ \<Rightarrow> True | _ \<Rightarrow> False))"

text \<open>
  Modelled from the spec: \<open>defineReactive(obj, key, val, customSetter, shallow)\<close> installs
  the accessor holding \<open>val\<close> on the instance and observes \<open>val\<close> unless \<open>shallow\<close>.
\<close>

definition defineReactive ::
  "'i \<Rightarrow> string \<Rightarrow> jsval \<Rightarrow> bool \<Rightarrow> bool \<Rightarrow> ('i, 'w) state \<Rightarrow> ('i, 'w) state" where
  "defineReactive vm key val customSetter shallow s =
     s\<lparr>vm_reactive :=
         AList.update key
           \<lparr>rp_value = val, rp_childOb = (\<not> shallow \<and> observe val s),
            rp_customSetter = customSetter\<rparr> (vm_reactive s),
       trace := trace s @ [DefinedReactive vm key val customSetter]\<rparr>"

text \<open>
  Modelled from the spec: the getter \<open>defineReactive\<close> installs. It returns the stored
  value and, with an active target, registers the dependency.
\<close>

definition reactive_get :: "string \<Rightarrow> ('i, 'w) state \<Rightarrow> jsval \<times> ('i, 'w) state" where
  "reactive_get key s =
     (case map_of (vm_reactive s) key of
        None \<Rightarrow> (Undefined, s)
      | Some p \<Rightarrow> (rp_value p, dep_depend key s))"

text \<open>
  \<open>initInjections(vm)\<close>; \<open>inject\<close> stands for \<open>vm.$options.inject\<close>. Outside production
  a warning setter is passed to \<open>defineReactive\<close>; the \<open>shallow\<close> argument is never passed.
  \<open>Object.keys(result)\<close> lists the keys in the order they were added.
\<close>

definition initInjections ::
  "bool \<Rightarrow> (string \<times> (component, 'w) inject_entry) list option \<Rightarrow> component
     \<Rightarrow> (component, 'w) state \<Rightarrow> (jsval + unit) \<times> (component, 'w) state" where
  "initInjections production inject vm s =
     (case resolveInject production inject vm s of
        (Inl ex, s1) \<Rightarrow> (Inl ex, s1)
      | (Inr None, s1) \<Rightarrow> (Inr (), s1)
      | (Inr (Some result), s1) \<Rightarrow>
          (Inr (),
           toggleObserving True
             (fold (\<lambda>key. defineReactive vm key (prop_get result key) (\<not> production) False)
                (map fst result)
                (toggleObserving False s1))))"

text \<open>
  The spec's words for the walk: the ownership chain from the instance to its root, and
  whether an instance on it holds a provided mapping containing the source key.
\<close>

fun ownership_chain :: "component \<Rightarrow> component list" where
  "ownership_chain (Component prov par) =
     Component prov par # (case par of None \<Rightarrow> [] | Some p \<Rightarrow> ownership_chain p)"

definition provides :: "component \<Rightarrow> string \<Rightarrow> bool" where
  "provides a provideKey =
     (case provided a of None \<Rightarrow> False | Some p \<Rightarrow> hasOwn p provideKey)"

section \<open>The Watcher\<close>

text \<open>
  Modelled from the spec: the options of a Watcher, \<open>{lazy, user, deep, sync, immediate}\<close>.
  Deep traversal and the scheduler queue are outside the model: no operation of the
  instance layer that is modelled here reaches them.
\<close>

record wopts =
  opt_lazy :: bool
  opt_user :: bool
  opt_deep :: bool
  opt_sync :: bool
  opt_immediate :: bool

text \<open>Modelled from the spec: the options object \<open>{}\<close>, in which every option is off.\<close>

definition no_options :: wopts where
  "no_options = \<lparr>opt_lazy = False, opt_user = False, opt_deep = False, opt_sync = False,
     opt_immediate = False\<rparr>"

text \<open>The Watcher table: the Watcher with a given number, and a change made to it.\<close>

definition get_watcher :: "('i, 'w) state \<Rightarrow> wid \<Rightarrow> ('i, 'w) watcher option" where
  "get_watcher s w = (if w < length (watchers s) then Some (watchers s ! w) else None)"

definition map_watcher ::
  "wid \<Rightarrow> (('i, 'w) watcher \<Rightarrow> ('i, 'w) watcher) \<Rightarrow> ('i, 'w) state \<Rightarrow> ('i, 'w) state" where
  "map_watcher w f s = s\<lparr>watchers := (watchers s)[w := f (watchers s ! w)]\<rparr>"

text \<open>
  Modelled from the spec: dep-set reconciliation. A Dep subscribed last round but not
  touched this round is unsubscribed; the touched set becomes the new baseline.
\<close>

definition cleanupDeps :: "wid \<Rightarrow> ('i, 'w) state \<Rightarrow> ('i, 'w) state" where
  "cleanupDeps w s =
     (case get_watcher s w of
        None \<Rightarrow> s
      | Some wr \<Rightarrow>
          map_watcher w (\<lambda>r. r\<lparr>w_deps := w_newDeps r, w_newDeps := []\<rparr>)
            (s\<lparr>subs := (\<lambda>d. if d \<in> set (w_deps wr) \<and> d \<notin> set (w_newDeps wr)
                               then removeAll w (subs s d) else subs s d)\<rparr>))"

text \<open>
  Modelled from the spec: \<open>get()\<close> pushes the Watcher onto the active-target stack,
  invokes the zero-argument getter, reconciles the dep sets and pops the stack on every
  exit path. A throwing getter is reported to the error handler and yields \<open>undefined\<close>
  when the option \<open>user\<close> is set; otherwise the exception goes on to the caller.
\<close>

definition watcher_get :: "wid \<Rightarrow> ('i, 'w) state \<Rightarrow> (jsval + jsval) \<times> ('i, 'w) state" where
  "watcher_get w s =
     (case get_watcher s w of
        None \<Rightarrow> (Inr Undefined, s)
      | Some wr \<Rightarrow>
          (case call_user ''getter'' (w_getter wr) (w_vm wr) [] (pushTarget (Some w) s) of
            (Inr v, s1) \<Rightarrow> (Inr v, popTarget (cleanupDeps w s1))
          | (Inl e, s1) \<Rightarrow>
              (if w_user wr
               then (Inr Undefined,
                     popTarget (cleanupDeps w
                       (handleError e (w_vm wr)
                          (''getter for watcher '' @ quoted (w_expression wr)) s1)))
               else (Inl e, popTarget (cleanupDeps w s1)))))"

text \<open>Modelled from the spec: \<open>evaluate()\<close> forces \<open>get()\<close> and clears \<open>dirty\<close>.\<close>

definition watcher_evaluate :: "wid \<Rightarrow> ('i, 'w) state \<Rightarrow> (jsval + unit) \<times> ('i, 'w) state" where
  "watcher_evaluate w s =
     (case watcher_get w s of
        (Inl e, s1) \<Rightarrow> (Inl e, s1)
      | (Inr v, s1) \<Rightarrow> (Inr (), map_watcher w (\<lambda>r. r\<lparr>w_value := v, w_dirty := False\<rparr>) s1))"

text \<open>
  Modelled from the spec: \<open>depend()\<close> attaches every Dep this Watcher holds to the outer
  active target (nothing happens without one).
\<close>

definition watcher_depend :: "wid \<Rightarrow> ('i, 'w) state \<Rightarrow> ('i, 'w) state" where
  "watcher_depend w s =
     (case get_watcher s w of None \<Rightarrow> s | Some wr \<Rightarrow> fold dep_depend (w_deps wr) s)"

text \<open>
  Modelled from the spec: \<open>teardown()\<close> removes the Watcher from its owner's watcher list
  and unsubscribes it from every Dep it holds; a no-op when already inactive.
\<close>

definition watcher_teardown :: "wid \<Rightarrow> ('i, 'w) state \<Rightarrow> ('i, 'w) state" where
  "watcher_teardown w s =
     (case get_watcher s w of
        None \<Rightarrow> s
      | Some wr \<Rightarrow>
          (if w_active wr
           then map_watcher w (\<lambda>r. r\<lparr>w_active := False\<rparr>)
                  (s\<lparr>vm_watchers := removeAll w (vm_watchers s),
                     subs := (\<lambda>d. if d \<in> set (w_deps wr) then removeAll w (subs s d)
                                   else subs s d)\<rparr>)
           else s))"

text \<open>
  Modelled from the spec: the constructor. \<open>expOrFn\<close> is given by the zero-argument getter
  it resolves to and by its text. A lazy Watcher starts dirty with no value computed; any
  other evaluates at once and keeps the initial value. The new Watcher joins its owner's
  watcher list.
\<close>

definition new_Watcher ::
  "'i \<Rightarrow> string \<Rightarrow> ('i, 'w) ufun \<Rightarrow> ('i, 'w) ufun option \<Rightarrow> wopts \<Rightarrow> ('i, 'w) state
     \<Rightarrow> (jsval + wid) \<times> ('i, 'w) state" where
  "new_Watcher vm expression getter cb options s =
     (let w = length (watchers s);
          wr = \<lparr>w_vm = vm, w_expression = expression, w_getter = getter, w_cb = cb,
                w_lazy = opt_lazy options, w_user = opt_user options,
                w_dirty = opt_lazy options, w_active = True, w_value = Undefined,
                w_deps = [], w_newDeps = []\<rparr>;
          s1 = s\<lparr>watchers := watchers s @ [wr], vm_watchers := vm_watchers s @ [w]\<rparr>
      in if opt_lazy options then (Inr w, s1)
         else (case watcher_get w s1 of
                 (Inl e, s2) \<Rightarrow> (Inl e, s2)
               | (Inr v, s2) \<Rightarrow> (Inr w, map_watcher w (\<lambda>r. r\<lparr>w_value := v\<rparr>) s2)))"

text \<open>
  Modelled from the spec: \<open>invokeWithErrorHandling(handler, context, args, vm, info)\<close>
  calls the handler and forwards whatever it throws to the error handler instead of
  propagating it. A handler that is not callable (\<open>None\<close>) fails with a TypeError at the
  call, which is caught the same way.
\<close>

definition invokeWithErrorHandling ::
  "('i, 'w) ufun option \<Rightarrow> 'i \<Rightarrow> 'i arg list \<Rightarrow> 'i \<Rightarrow> string \<Rightarrow> ('i, 'w) state
     \<Rightarrow> ('i, 'w) state" where
  "invokeWithErrorHandling handler context args vm info s =
     (case handler of
        None \<Rightarrow> handleError (JStr ''TypeError: handler is not a function'') vm info s
      | Some f \<Rightarrow>
          (case call_user ''callback'' f context args s of
            (Inl e, s1) \<Rightarrow> handleError e vm info s1
          | (Inr v, s1) \<Rightarrow> s1))"

text \<open>
  The state without its dependency bookkeeping (the dep lists of the Watchers and the
  subscriber lists of the Deps): what remains is what a read or an evaluation can still
  change besides the subscriptions.
\<close>

definition untracked :: "('i, 'w) state \<Rightarrow> ('i, 'w) state" where
  "untracked s =
     s\<lparr>watchers := map (\<lambda>r. r\<lparr>w_deps := [], w_newDeps := []\<rparr>) (watchers s),
       subs := (\<lambda>d. [])\<rparr>"

section \<open>state.js: computed properties\<close>

text \<open>
  A computed definition is a function or an object with optional \<open>get\<close>, \<open>set\<close> and
  \<open>cache\<close> (\<open>Undefined\<close> when absent).
\<close>

record ('i, 'w) computed_object =
  cd_get :: "('i, 'w) ufun option"
  cd_set :: "('i, 'w) ufun option"
  cd_cache :: jsval

datatype ('i, 'w) userDef = DefFunction "('i, 'w) ufun" | DefObject "('i, 'w) computed_object"

text \<open>
  \<open>defineComputed(target, key, userDef)\<close>: the accessor pair put on the instance.
  \<open>serverRendering\<close> is the value of \<open>isServerRendering()\<close>, \<open>production\<close> says whether
  \<open>process.env.NODE_ENV\<close> is \<open>'production'\<close>.
\<close>

definition defineComputed ::
  "bool \<Rightarrow> bool \<Rightarrow> string \<Rightarrow> ('i, 'w) userDef \<Rightarrow> ('i, 'w) state \<Rightarrow> ('i, 'w) state" where
  "defineComputed production serverRendering key userDef s =
     (let shouldCache = \<not> serverRendering;
          getter = (case userDef of
                      DefFunction f \<Rightarrow> (if shouldCache then ComputedGetter key else GetterInvoker f)
                    | DefObject d \<Rightarrow>
                        (case cd_get d of
                           Some g \<Rightarrow> (if shouldCache \<and> cd_cache d \<noteq> JBool False
                                      then ComputedGetter key else GetterInvoker g)
                         | None \<Rightarrow> GetNoop));
          setter = (case userDef of
                      DefFunction f \<Rightarrow> SetNoop
                    | DefObject d \<Rightarrow> (case cd_set d of Some f \<Rightarrow> SetUser f | None \<Rightarrow> SetNoop));
          setter' = (case setter of
                       SetNoop \<Rightarrow> (if \<not> production then SetWarn key else SetNoop)
                     | _ \<Rightarrow> setter)
      in s\<lparr>vm_accessors := AList.update key (getter, setter') (vm_accessors s)\<rparr>)"

text \<open>
  The function returned by \<open>createComputedGetter(key)\<close>, run on the instance:
  \<^verbatim>\<open>const watcher = this._computedWatchers && this._computedWatchers[key]
  if (watcher) { if (watcher.dirty) watcher.evaluate()
                 if (Dep.target) watcher.depend()
                 return watcher.value }\<close>
\<close>

definition computedGetter :: "string \<Rightarrow> ('i, 'w) state \<Rightarrow> (jsval + jsval) \<times> ('i, 'w) state" where
  "computedGetter key s =
     (case (case computedWatchers s of None \<Rightarrow> None | Some ws \<Rightarrow> map_of ws key) of
        None \<Rightarrow> (Inr Undefined, s)
      | Some w \<Rightarrow>
          (case get_watcher s w of
             None \<Rightarrow> (Inr Undefined, s)
           | Some wr \<Rightarrow>
               (case (if w_dirty wr then watcher_evaluate w s else (Inr (), s)) of
                  (Inl e, s1) \<Rightarrow> (Inl e, s1)
                | (Inr u, s1) \<Rightarrow>
                    (let s2 = (if Dep_target s1 \<noteq> None then watcher_depend w s1 else s1)
                     in (Inr (case get_watcher s2 w of None \<Rightarrow> Undefined
                                                    | Some r \<Rightarrow> w_value r), s2)))))"

text \<open>Running an installed getter (a property read) and an installed setter (an assignment).\<close>

definition run_getter ::
  "('i, 'w) pget \<Rightarrow> 'i \<Rightarrow> ('i, 'w) state \<Rightarrow> (jsval + jsval) \<times> ('i, 'w) state" where
  "run_getter g vm s =
     (case g of
        GetNoop \<Rightarrow> (Inr Undefined, s)
      | ComputedGetter key \<Rightarrow> computedGetter key s
      | GetterInvoker fn \<Rightarrow> call_user ''computed'' fn vm [ArgVm vm] s)"

definition run_setter ::
  "('i, 'w) pset \<Rightarrow> 'i \<Rightarrow> jsval \<Rightarrow> ('i, 'w) state \<Rightarrow> (jsval + unit) \<times> ('i, 'w) state" where
  "run_setter st vm val s =
     (case st of
        SetNoop \<Rightarrow> (Inr (), s)
      | SetWarn key \<Rightarrow>
          (Inr (), warn (''Computed property '' @ quoted key
                          @ '' was assigned to but it has no setter.'') vm s)
      | SetUser f \<Rightarrow>
          (case call_user ''set'' f vm [ArgVal val] s of
            (Inl e, s1) \<Rightarrow> (Inl e, s1)
          | (Inr v, s1) \<Rightarrow> (Inr (), s1)))"

text \<open>Reading the computed property \<open>key\<close> \<open>n\<close> times in a row; the values read, in order.\<close>

fun read_times ::
  "nat \<Rightarrow> string \<Rightarrow> ('i, 'w) state \<Rightarrow> (jsval + jsval) list \<times> ('i, 'w) state" where
  "read_times 0 key s = ([], s)"
| "read_times (Suc n) key s =
     (case computedGetter key s of
        (r, s1) \<Rightarrow> (case read_times n key s1 of (rs, s2) \<Rightarrow> (r # rs, s2)))"

section \<open>state.js: $watch\<close>

text \<open>
  What may be passed as a callback: a function, a plain object (its \<open>handler\<close> member and
  its option members), a string naming a member of the instance, or something else.
\<close>

datatype ('i, 'w) cb =
    CbFunction "('i, 'w) ufun"
  | CbObject "('i, 'w) cb" wopts
  | CbMethod string
  | CbOther

fun cb_depth :: "('i, 'w) cb \<Rightarrow> nat" where
  "cb_depth (CbObject h opts) = Suc (cb_depth h)"
| "cb_depth c = 0"

text \<open>The value as a callable: only a function can be called.\<close>

fun callable :: "('i, 'w) cb \<Rightarrow> ('i, 'w) ufun option" where
  "callable (CbFunction f) = Some f"
| "callable c = None"

text \<open>
  \<^verbatim>\<open>if (typeof handler === 'string') handler = vm[handler]\<close>; \<open>members\<close> gives the instance
  members that are functions (a member named by a handler string is a method or missing).
\<close>

fun resolve_member :: "(string \<Rightarrow> ('i, 'w) ufun option) \<Rightarrow> ('i, 'w) cb \<Rightarrow> ('i, 'w) cb" where
  "resolve_member members (CbMethod name) =
     (case members name of Some f \<Rightarrow> CbFunction f | None \<Rightarrow> CbOther)"
| "resolve_member members c = c"

text \<open>
  The part of \<open>$watch\<close> after the plain-object test: \<open>options.user = true\<close>, the Watcher is
  created, the immediate callback runs between \<open>pushTarget()\<close> and \<open>popTarget()\<close>, and the
  function handed back tears the Watcher down.
\<close>

definition watch_body ::
  "'i \<Rightarrow> string \<Rightarrow> ('i, 'w) ufun \<Rightarrow> ('i, 'w) ufun option \<Rightarrow> wopts option \<Rightarrow> ('i, 'w) state
     \<Rightarrow> (jsval + (('i, 'w) state \<Rightarrow> ('i, 'w) state)) \<times> ('i, 'w) state" where
  "watch_body vm expression getter cb options s =
     (let options1 = (case options of None \<Rightarrow> no_options | Some opts \<Rightarrow> opts)\<lparr>opt_user := True\<rparr>
      in case new_Watcher vm expression getter cb options1 s of
           (Inl e, s1) \<Rightarrow> (Inl e, s1)
         | (Inr watcher, s1) \<Rightarrow>
             (Inr (watcher_teardown watcher),
              (if opt_immediate options1
               then popTarget
                      (invokeWithErrorHandling cb vm
                         [ArgVal (case get_watcher s1 watcher of None \<Rightarrow> Undefined
                                                                | Some r \<Rightarrow> w_value r)]
                         vm
                         (''callback for immediate watcher ''
                            @ quoted (case get_watcher s1 watcher of None \<Rightarrow> []
                                                                   | Some r \<Rightarrow> w_expression r))
                         (pushTarget None s1))
               else s1)))"

text \<open>\<open>createWatcher\<close> and \<open>Vue.prototype.$watch\<close>, which call each other.\<close>

function (sequential)
  createWatcher ::
    "(string \<Rightarrow> ('i, 'w) ufun option) \<Rightarrow> 'i \<Rightarrow> string \<Rightarrow> ('i, 'w) ufun \<Rightarrow> ('i, 'w) cb
       \<Rightarrow> wopts option \<Rightarrow> ('i, 'w) state
       \<Rightarrow> (jsval + (('i, 'w) state \<Rightarrow> ('i, 'w) state)) \<times> ('i, 'w) state"
  and watch ::
    "(string \<Rightarrow> ('i, 'w) ufun option) \<Rightarrow> 'i \<Rightarrow> string \<Rightarrow> ('i, 'w) ufun \<Rightarrow> ('i, 'w) cb
       \<Rightarrow> wopts option \<Rightarrow> ('i, 'w) state
       \<Rightarrow> (jsval + (('i, 'w) state \<Rightarrow> ('i, 'w) state)) \<times> ('i, 'w) state"
where
  "createWatcher members vm expression getter (CbObject h opts) options s =
     watch members vm expression getter (resolve_member members h) (Some opts) s"
| "createWatcher members vm expression getter handler options s =
     watch members vm expression getter (resolve_member members handler) options s"
| "watch members vm expression getter (CbObject h opts) options s =
     createWatcher members vm expression getter (CbObject h opts) options s"
| "watch members vm expression getter cb options s =
     watch_body vm expression getter (callable cb) options s"
  by pat_completeness auto

termination
proof (relation "measure (\<lambda>x. case x of
          Inl (members, vm, expression, getter, handler, options, s) \<Rightarrow>
            (case handler of CbObject h opts \<Rightarrow> 2 * cb_depth handler | _ \<Rightarrow> 2)
        | Inr (members, vm, expression, getter, c, options, s) \<Rightarrow> 2 * cb_depth c + 1)",
    goal_cases)
  case 1
  show ?case by simp
next
  case (2 members vm expression getter h opts options s)
  have "cb_depth (resolve_member members h) = cb_depth h"
    by (cases h) (simp_all split: option.splits)
  then show ?case by simp
qed (simp_all split: option.splits)

section \<open>state.js: the property proxy\<close>

text \<open>
  \<open>proxy\<close> installs an accessor whose functions run \<^verbatim>\<open>this[sourceKey][key]\<close>, so what it does
  is decided by property access on objects. Objects live in a heap and are referred to by
  address: two properties that hold the same object hold the same address, and a write to
  the object is seen through both. A value is \<open>undefined\<close>, \<open>null\<close>, another primitive
  (type \<open>'p\<close>) or a reference to an object.
\<close>

type_synonym addr = nat

datatype 'p hval = HUndefined | HNull | HPrim 'p | HRef addr

text \<open>
  The functions an accessor property can hold: \<open>proxyGetter\<close> and \<open>proxySetter\<close>, closed
  over \<open>sourceKey\<close> and \<open>key\<close>, or a function from elsewhere (a builtin such as the
  \<open>__proto__\<close> accessor of \<open>Object.prototype\<close>, a user-defined getter or setter), known by
  a number and run by the realm.
\<close>

datatype getter_fn = ProxyGetter string string | NativeGetter nat
datatype setter_fn = ProxySetter string string | NativeSetter nat

text \<open>
  A property is a data property (value, writable, configurable) or an accessor property
  (getter, setter, configurable); either function of an accessor may be missing. An object
  has its own properties, a prototype (\<open>None\<close> is \<open>null\<close>) and the extensible flag.
\<close>

datatype 'p slot =
    Data "'p hval" bool bool
  | Accessor "getter_fn option" "setter_fn option" bool

fun configurable :: "'p slot \<Rightarrow> bool" where
  "configurable (Data v w c) = c"
| "configurable (Accessor g s c) = c"

record 'p object =
  own :: "(string \<times> 'p slot) list"
  proto :: "addr option"
  extensible :: bool

type_synonym 'p heap = "'p object list"

text \<open>
  How an access ends when it does not return: a TypeError, a RangeError (the call stack is
  exhausted), or \<open>Stuck\<close> for a heap that no program produces (a reference to no object, a
  prototype chain that closes on itself).
\<close>

datatype failure = TypeError | RangeError | Stuck

text \<open>
  What the language supplies around the heap: the own properties and the prototype of a
  primitive used as an object (a string has its \<open>length\<close> and its indices, all read-only),
  and the functions behind \<open>NativeGetter\<close> and \<open>NativeSetter\<close>, which receive \<open>this\<close> (and
  the assigned value).
\<close>

record 'p realm =
  prim_own :: "'p \<Rightarrow> string \<Rightarrow> 'p hval option"
  prim_proto :: "'p \<Rightarrow> addr option"
  native_get :: "nat \<Rightarrow> 'p hval \<Rightarrow> 'p heap \<Rightarrow> failure + 'p hval"
  native_set :: "nat \<Rightarrow> 'p hval \<Rightarrow> 'p hval \<Rightarrow> 'p heap \<Rightarrow> failure + 'p heap"

definition obj_at :: "'p heap \<Rightarrow> addr \<Rightarrow> 'p object option" where
  "obj_at h a = (if a < length h then Some (h ! a) else None)"

text \<open>
  The property a name resolves to, searched along the prototype chain from an object on.
  \<open>n\<close> bounds the number of objects visited; a chain of distinct objects has at most
  \<open>length h\<close> of them.
\<close>

fun find_slot :: "'p heap \<Rightarrow> nat \<Rightarrow> addr option \<Rightarrow> string \<Rightarrow> failure + 'p slot option" where
  "find_slot h n None key = Inr None"
| "find_slot h 0 (Some a) key = Inl Stuck"
| "find_slot h (Suc n) (Some a) key =
     (case obj_at h a of
        None \<Rightarrow> Inl Stuck
      | Some ob \<Rightarrow>
          (case map_of (own ob) key of
             Some sl \<Rightarrow> Inr (Some sl)
           | None \<Rightarrow> find_slot h n (proto ob) key))"

text \<open>
  The property \<open>base[key]\<close> resolves to. \<open>undefined\<close> and \<open>null\<close> have no properties
  (TypeError); a primitive answers with the own properties of its wrapper, then with the
  wrapper's prototype chain.
\<close>

definition lookup :: "'p realm \<Rightarrow> 'p heap \<Rightarrow> 'p hval \<Rightarrow> string \<Rightarrow> failure + 'p slot option" where
  "lookup R h base key =
     (case base of
        HUndefined \<Rightarrow> Inl TypeError
      | HNull \<Rightarrow> Inl TypeError
      | HPrim p \<Rightarrow>
          (case prim_own R p key of
             Some v \<Rightarrow> Inr (Some (Data v False False))
           | None \<Rightarrow> find_slot h (length h) (prim_proto R p) key)
      | HRef a \<Rightarrow> find_slot h (length h) (Some a) key)"

text \<open>
  A read \<open>base[key]\<close>: the value of a data property, \<open>undefined\<close> for a name found nowhere
  or an accessor without getter, else the getter's result, called with \<open>base\<close> as \<open>this\<close>.
  \<open>proxyGetter\<close> is \<^verbatim>\<open>return this[sourceKey][key]\<close>. \<open>depth\<close> is the room left on the call
  stack; a call that finds none fails with a RangeError.
\<close>

fun obj_get :: "'p realm \<Rightarrow> 'p heap \<Rightarrow> nat \<Rightarrow> 'p hval \<Rightarrow> string \<Rightarrow> failure + 'p hval" where
  "obj_get R h depth base key =
     (case lookup R h base key of
        Inl e \<Rightarrow> Inl e
      | Inr None \<Rightarrow> Inr HUndefined
      | Inr (Some (Data v w c)) \<Rightarrow> Inr v
      | Inr (Some (Accessor g s c)) \<Rightarrow>
          (case g of
             None \<Rightarrow> Inr HUndefined
           | Some f \<Rightarrow>
               (case depth of
                  0 \<Rightarrow> Inl RangeError
                | Suc d \<Rightarrow>
                    (case f of
                       ProxyGetter sourceKey k \<Rightarrow>
                         (case obj_get R h d base sourceKey of
                            Inl e \<Rightarrow> Inl e
                          | Inr src \<Rightarrow> obj_get R h d src k)
                     | NativeGetter n \<Rightarrow> native_get R n base h))))"



text \<open>
  \<open>proxy(target, sourceKey, key)\<close>: \<open>Object.defineProperty\<close> puts the accessor pair on
  \<open>target\<close> under \<open>key\<close>, configurable, in place of what was there. It throws a TypeError
  when \<open>target\<close> is no object, holds \<open>key\<close> as a non-configurable property, or lacks \<open>key\<close>
  and is not extensible.
\<close>

definition proxy :: "'p heap \<Rightarrow> 'p hval \<Rightarrow> string \<Rightarrow> string \<Rightarrow> failure + 'p heap" where
  "proxy h target sourceKey key =
     (case target of
        HRef a \<Rightarrow>
          (case obj_at h a of
             None \<Rightarrow> Inl Stuck
           | Some ob \<Rightarrow>
               if (case map_of (own ob) key of None \<Rightarrow> extensible ob | Some sl \<Rightarrow> configurable sl)
               then Inr (h[a := ob\<lparr>own := AList.update key
                             (Accessor (Some (ProxyGetter sourceKey key))
                                (Some (ProxySetter sourceKey key)) True) (own ob)\<rparr>])
               else Inl TypeError)
      | _ \<Rightarrow> Inl TypeError)"


section \<open>Sample inputs\<close>

text \<open>
  A fresh instance state: nothing on the target stack, no Watcher, observation enabled,
  an empty log.
\<close>

definition init_state :: "'w \<Rightarrow> ('i, 'w) state" where
  "init_state w =
     \<lparr>world = w, targetStack = [], watchers = [], subs = (\<lambda>d. []), vm_watchers = [],
      computedWatchers = None, shouldObserve = True, vm_reactive = [], vm_accessors = [],
      trace = []\<rparr>"

text \<open>
  User functions that throw a value, or return one, without reading any reactive field;
  \<open>noop\<close> returns \<open>undefined\<close>.
\<close>

definition throwing :: "jsval \<Rightarrow> ('i, 'w) ufun" where
  "throwing e = (\<lambda>this args w. \<lparr>returned = Inl e, touched = [], world_after = w\<rparr>)"

definition returning :: "jsval \<Rightarrow> ('i, 'w) ufun" where
  "returning v = (\<lambda>this args w. \<lparr>returned = Inr v, touched = [], world_after = w\<rparr>)"

definition noop :: "('i, 'w) ufun" where
  "noop = returning Undefined"

text \<open>
  The computed property \<open>sum = a + b\<close> over a world holding \<open>a\<close> and \<open>b\<close>; its getter
  reads the reactive fields \<open>a\<close> and \<open>b\<close>.
\<close>

definition sum_getter :: "('i, int \<times> int) ufun" where
  "sum_getter = (\<lambda>this args w.
     \<lparr>returned = Inr (JNum (fst w + snd w)), touched = [''a'', ''b''], world_after = w\<rparr>)"

text \<open>
  An instance whose computed property \<open>sum\<close> has its lazy Watcher (number 0), created as
  \<open>initComputed\<close> does (\<^verbatim>\<open>new Watcher(vm, getter, noop, { lazy: true })\<close>), next to a
  second lazy Watcher (number 1); \<open>a = 1\<close>, \<open>b = 2\<close>.
\<close>

definition sum_state :: "(nat, int \<times> int) state" where
  "sum_state =
     (snd (new_Watcher 0 ''other'' (returning Null) (Some noop) (no_options\<lparr>opt_lazy := True\<rparr>)
        (snd (new_Watcher 0 ''sum'' sum_getter (Some noop) (no_options\<lparr>opt_lazy := True\<rparr>)
           (init_state (1, 2))))))
     \<lparr>computedWatchers := Some [(''sum'', 0)]\<rparr>"









section \<open>Properties\<close>

subsection \<open>getData and a throwing data function (C5)\<close>

lemma fold_dep_depend_no_target:
  "Dep_target s = None \<Longrightarrow> fold dep_depend ds s = s"
  by (induction ds) (simp_all add: dep_depend_def)

text \<open>
  C5. When the user-supplied \<open>data()\<close> function throws, \<open>getData\<close> does not propagate the
  exception: it returns the empty object \<open>{}\<close>, and the only calls that leave the layer are
  the invocation of \<open>data\<close> itself (receiver and argument the instance, no active target)
  followed by \<open>handleError(e, vm, "data()")\<close>.
\<close>

theorem getData_catches:
  assumes "returned (data vm [ArgVm vm] (world s)) = Inl e"
  shows "fst (getData data vm s) = Inr (JObj []) \<and>
         trace (snd (getData data vm s)) =
           trace s @ [Invoked ''data'' vm [ArgVm vm] None, HandledError e vm ''data()'']"
  using assms
  by (simp add: getData_def call_user_def Let_def pushTarget_def popTarget_def
      handleError_def Dep_target_def fold_dep_depend_no_target)

theorem getData_catches_witness:
  "fst (getData (throwing (JStr ''boom'')) (0::nat) (init_state ())) = Inr (JObj []) \<and>
   trace (snd (getData (throwing (JStr ''boom'')) (0::nat) (init_state ()))) =
     [Invoked ''data'' 0 [ArgVm 0] None, HandledError (JStr ''boom'') 0 ''data()'']"
  using getData_catches [of "throwing (JStr ''boom'')" "0::nat" "init_state ()" "JStr ''boom''"]
  by (simp add: throwing_def init_state_def)

subsection \<open>What a user call leaves untouched\<close>

lemma fold_dep_depend_frame:
  "world (fold dep_depend ds s) = world s"
  "targetStack (fold dep_depend ds s) = targetStack s"
  "trace (fold dep_depend ds s) = trace s"
  "vm_watchers (fold dep_depend ds s) = vm_watchers s"
  "computedWatchers (fold dep_depend ds s) = computedWatchers s"
  "shouldObserve (fold dep_depend ds s) = shouldObserve s"
  "vm_reactive (fold dep_depend ds s) = vm_reactive s"
  "vm_accessors (fold dep_depend ds s) = vm_accessors s"
  "length (watchers (fold dep_depend ds s)) = length (watchers s)"
  by (induction ds arbitrary: s;
      simp add: dep_depend_def addDep_def Dep_target_def Let_def split: option.splits list.splits)+

lemma call_user_frame:
  "targetStack (snd (call_user role f this args s)) = targetStack s"
  "trace (snd (call_user role f this args s)) = trace s @ [Invoked role this args (Dep_target s)]"
  "world (snd (call_user role f this args s)) = world_after (f this args (world s))"
  "fst (call_user role f this args s) = returned (f this args (world s))"
  "vm_watchers (snd (call_user role f this args s)) = vm_watchers s"
  "computedWatchers (snd (call_user role f this args s)) = computedWatchers s"
  "shouldObserve (snd (call_user role f this args s)) = shouldObserve s"
  "vm_reactive (snd (call_user role f this args s)) = vm_reactive s"
  "vm_accessors (snd (call_user role f this args s)) = vm_accessors s"
  "length (watchers (snd (call_user role f this args s))) = length (watchers s)"
  by (simp_all add: call_user_def Let_def fold_dep_depend_frame)

subsection \<open>resolveInject (C2, C3, C10)\<close>

lemma resolve_keys_preserves:
  "resolve_keys production keys vm r s = (Inr result, s') \<Longrightarrow> key \<notin> fst ` set keys
     \<Longrightarrow> map_of result key = map_of r key"
proof (induction keys arbitrary: r s)
  case Nil
  then show ?case by simp
next
  case (Cons a keys)
  obtain k e where a: "a = (k, e)" by (cases a)
  from Cons.prems(2) a have kk: "k \<noteq> key" and notin: "key \<notin> fst ` set keys" by auto
  from Cons.prems(1) a kk Cons.IH[OF _ notin] show ?case
    by (auto simp: update_conv' split: if_splits option.splits dflt.splits sum.splits prod.splits)
qed

lemma resolve_keys_ob:
  "resolve_keys production keys vm r s = (Inr result, s') \<Longrightarrow> map_of r ''__ob__'' = None
     \<Longrightarrow> map_of result ''__ob__'' = None"
proof (induction keys arbitrary: r s)
  case Nil
  then show ?case by simp
next
  case (Cons a keys)
  obtain k e where a: "a = (k, e)" by (cases a)
  show ?case
  proof (cases "k = ''__ob__''")
    case True
    with Cons a show ?thesis by simp
  next
    case False
    with Cons.prems a Cons.IH show ?thesis
      by (auto simp: update_conv' split: if_splits option.splits dflt.splits sum.splits prod.splits)
  qed
qed

lemma resolve_keys_distinct:
  "resolve_keys production keys vm r s = (Inr result, s') \<Longrightarrow> distinct (map fst r)
     \<Longrightarrow> distinct (map fst result)"
proof (induction keys arbitrary: r s)
  case Nil
  then show ?case by simp
next
  case (Cons a keys)
  obtain k e where a: "a = (k, e)" by (cases a)
  from Cons.prems a Cons.IH show ?case
    by (auto simp: distinct_update split: if_splits option.splits dflt.splits sum.splits prod.splits)
qed

lemma find_source_chain:
  "find_source (Some vm) k = find (\<lambda>a. provides a k) (ownership_chain vm)"
proof (induction vm)
  case (Component prov par)
  show ?case
  proof (cases par)
    case None
    then show ?thesis by (simp add: provides_def split: option.splits)
  next
    case (Some p)
    with Component show ?thesis by (simp add: provides_def split: option.splits)
  qed
qed

lemma find_nearest:
  "xs = nearer @ x # farther \<Longrightarrow> P x \<Longrightarrow> \<forall>a \<in> set nearer. \<not> P a \<Longrightarrow> find P xs = Some x"
  by (induction nearer arbitrary: xs) auto

lemma resolve_keys_found:
  "resolve_keys production keys vm r s = (Inr result, s') \<Longrightarrow> distinct (map fst keys)
     \<Longrightarrow> (key, e) \<in> set keys \<Longrightarrow> key \<noteq> ''__ob__''
     \<Longrightarrow> find_source (Some vm) (inj_from e) = Some src
     \<Longrightarrow> map_of result key = Some (source_provided src (inj_from e))"
proof (induction keys arbitrary: r s)
  case Nil
  then show ?case by simp
next
  case (Cons a keys)
  obtain k e' where a: "a = (k, e')" by (cases a)
  show ?case
  proof (cases "(key, e) = a")
    case True
    with a have eq: "k = key" "e' = e" by auto
    from Cons.prems(2) a eq have notin: "key \<notin> fst ` set keys" by auto
    from Cons.prems(1) a eq Cons.prems(4,5)
    have "resolve_keys production keys vm
            (AList.update key (source_provided src (inj_from e)) r) s = (Inr result, s')"
      by simp
    from resolve_keys_preserves[OF this notin] show ?thesis by (simp add: update_conv')
  next
    case False
    with Cons.prems(3) have mem: "(key, e) \<in> set keys" by auto
    from Cons.prems(2) have d: "distinct (map fst keys)" by simp
    from Cons.prems(1) a Cons.IH[OF _ d mem Cons.prems(4,5)] show ?thesis
      by (auto split: if_splits option.splits dflt.splits sum.splits prod.splits)
  qed
qed

text \<open>
  C2, as stated, fails for an injected key named \<open>__ob__\<close>: the loop passes over it, so
  it gets no binding even when an instance on the chain provides its source key.
\<close>

theorem resolveInject_ob_key_not_bound:
  "resolveInject False
     (Some [(''__ob__'', \<lparr>inj_from = ''theme'', inj_default = None\<rparr>)])
     (Component None (Some (Component (Some [(''theme'', JStr ''dark'')]) None)))
     (init_state ())
   = (Inr (Some []), init_state () :: (component, unit) state)"
  by (simp add: resolveInject_def)

text \<open>
  C2 (amended). For an injected key other than \<open>__ob__\<close>, the binding in the mapping that
  \<open>resolveInject\<close> returns is the value held by the nearest instance on the ownership chain
  (the consuming instance first, then its parents up to the root) whose provided mapping
  contains the source key, whatever instances farther up provide.
\<close>

theorem resolveInject_nearest_provider:
  assumes "resolveInject production (Some inject) vm s = (Inr (Some result), s')"
    and "distinct (map fst inject)" and "(key, e) \<in> set inject" and "key \<noteq> ''__ob__''"
    and "ownership_chain vm = nearer @ src # farther"
    and "\<forall>a \<in> set nearer. \<not> provides a (inj_from e)"
    and "provided src = Some p" and "map_of p (inj_from e) = Some v"
  shows "map_of result key = Some v"
proof -
  from assms(7,8) have "provides src (inj_from e)"
    by (simp add: provides_def hasOwn_def)
  with assms(5,6) have "find_source (Some vm) (inj_from e) = Some src"
    by (simp add: find_source_chain find_nearest)
  moreover from assms(1) have "resolve_keys production inject vm [] s = (Inr result, s')"
    by (auto simp: resolveInject_def split: prod.splits sum.splits)
  ultimately have "map_of result key = Some (source_provided src (inj_from e))"
    using assms(2,3,4) by (rule resolve_keys_found [rotated 4])
  with assms(7,8) show ?thesis by (simp add: source_provided_def prop_get_def)
qed

theorem resolveInject_nearest_provider_witness:
  "resolveInject False
     (Some [(''theme'', \<lparr>inj_from = ''theme'', inj_default = None\<rparr>)])
     (Component None
        (Some (Component (Some [(''theme'', JStr ''light'')])
           (Some (Component (Some [(''theme'', JStr ''dark'')]) None)))))
     (init_state ())
   = (Inr (Some [(''theme'', JStr ''light'')]), init_state ()) \<and>
   map_of [(''theme'', JStr ''light'')] ''theme'' = Some (JStr ''light'')"
proof -
  let ?root = "Component (Some [(''theme'', JStr ''dark'')]) None"
  let ?mid = "Component (Some [(''theme'', JStr ''light'')]) (Some ?root)"
  let ?leaf = "Component None (Some ?mid)"
  let ?inject = "[(''theme'', \<lparr>inj_from = ''theme'', inj_default = None\<rparr>)]
                   :: (string \<times> (component, unit) inject_entry) list"
  have run: "resolveInject False (Some ?inject) ?leaf (init_state ())
               = (Inr (Some [(''theme'', JStr ''light'')]), init_state ())"
    by (simp add: resolveInject_def hasOwn_def source_provided_def prop_get_def)
  have chain: "ownership_chain ?leaf = [?leaf] @ ?mid # [?root]"
    by simp
  have nearer: "\<forall>a \<in> set [?leaf]. \<not> provides a (inj_from (snd (hd ?inject)))"
    by (simp add: provides_def)
  from resolveInject_nearest_provider [OF run _ _ _ chain, of "''theme''" "snd (hd ?inject)"
      "[(''theme'', JStr ''light'')]" "JStr ''light''"] nearer run
  show ?thesis by simp
qed

text \<open>
  C3, as stated, fails in a production build: a key that no instance on the chain provides
  and that declares no default is passed over without any signal. It fails as well for a
  key named \<open>__ob__\<close>, in any build: the key is passed over before its default is looked
  at, so a declared default is not bound and a missing one is not reported.
\<close>

theorem resolveInject_silent_in_production:
  "resolveInject True
     (Some [(''theme'', \<lparr>inj_from = ''theme'', inj_default = None\<rparr>)])
     (Component None None) (init_state ())
   = (Inr (Some []), init_state () :: (component, unit) state) \<and>
   trace (snd (resolveInject True
     (Some [(''theme'', \<lparr>inj_from = ''theme'', inj_default = None\<rparr>)])
     (Component None None) (init_state () :: (component, unit) state))) = [] \<and>
   resolveInject False
     (Some [(''__ob__'', \<lparr>inj_from = ''theme'', inj_default = Some (Static (JNum 0))\<rparr>)])
     (Component None None) (init_state ())
   = (Inr (Some []), init_state () :: (component, unit) state)"
  by (simp add: resolveInject_def init_state_def)

lemma resolve_keys_append:
  "resolve_keys production (before @ rest) vm r s =
     (case resolve_keys production before vm r s of
        (Inl ex, s1) \<Rightarrow> (Inl ex, s1)
      | (Inr r1, s1) \<Rightarrow> resolve_keys production rest vm r1 s1)"
proof (induction before arbitrary: r s)
  case Nil
  then show ?case by simp
next
  case (Cons a before)
  obtain k e where a: "a = (k, e)" by (cases a)
  with Cons.IH show ?case
    by (cases "k = ''__ob__''")
      (simp_all split: option.splits dflt.splits sum.splits prod.splits split del: if_split)
qed

lemma resolve_keys_trace_grows:
  "resolve_keys production keys vm r s = (x, s') \<Longrightarrow> \<exists>tr. trace s' = trace s @ tr"
proof (induction keys arbitrary: r s)
  case Nil
  then show ?case by simp
next
  case (Cons a keys)
  obtain k e where a: "a = (k, e)" by (cases a)
  have step: "\<exists>tr. trace s' = trace t @ tr"
    if "resolve_keys production keys vm r' t = (x, s')" for r' t
    using that by (rule Cons.IH)
  have warned: "trace (if \<not> production then warn m vm s else s) = trace s @
      (if \<not> production then [Warned m vm] else [])" for m
    by (simp add: warn_def)
  from Cons.prems a show ?case
    by (cases "k = ''__ob__''")
      (auto dest!: step simp: warned call_user_def Let_def fold_dep_depend_frame
        split: option.splits dflt.splits sum.splits prod.splits split del: if_split)
qed


text \<open>
  C3 (amended). For an injected key other than \<open>__ob__\<close> whose source key no instance on
  the chain provides, at the state \<open>s1\<close> in which the loop reaches the key: a non-function default becomes
  the binding as it is; a function default is called with the instance as receiver and no
  arguments, and the value it returns becomes the binding; with no default the step
  returns normally and binds nothing (the key stays absent from the result, so it reads
  as \<open>undefined\<close>), a warning "Injection ... not found" is logged outside production,
  and in production the step leaves the state as it was.
\<close>

theorem resolveInject_not_provided:
  assumes run: "resolveInject production (Some (before @ (key, e) # after)) vm s
                  = (Inr (Some result), s')"
    and dist: "distinct (map fst (before @ (key, e) # after))"
    and key: "key \<noteq> ''__ob__''"
    and none: "\<forall>a \<in> set (ownership_chain vm). \<not> provides a (inj_from e)"
    and pre: "resolve_keys production before vm [] s = (Inr r1, s1)"
  shows "(inj_default e = Some (Static v) \<longrightarrow> map_of result key = Some v)
    \<and> (inj_default e = Some (Factory f) \<longrightarrow>
         (\<exists>u. returned (f vm [] (world s1)) = Inr u \<and> map_of result key = Some u)
         \<and> Invoked ''default'' vm [] (Dep_target s1) \<in> set (trace s'))
    \<and> (inj_default e = None \<longrightarrow>
         fst (resolve_keys production [(key, e)] vm r1 s1) = Inr r1
         \<and> map_of result key = None \<and> prop_get result key = Undefined
         \<and> (\<not> production \<longrightarrow>
              Warned (''Injection '' @ quoted key @ '' not found'') vm \<in> set (trace s'))
         \<and> (production \<longrightarrow> snd (resolve_keys production [(key, e)] vm r1 s1) = s1))"
proof -
  from none have src: "find_source (Some vm) (inj_from e) = None"
    by (simp add: find_source_chain find_None_iff)
  from dist have nb: "key \<notin> fst ` set before" and na: "key \<notin> fst ` set after"
    by auto
  from resolve_keys_preserves [OF pre nb] have r1: "map_of r1 key = None"
    by simp
  from run have "resolve_keys production (before @ (key, e) # after) vm [] s = (Inr result, s')"
    by (auto simp: resolveInject_def split: prod.splits sum.splits)
  with pre have rest: "resolve_keys production ((key, e) # after) vm r1 s1 = (Inr result, s')"
    by (simp add: resolve_keys_append)
  have static: "map_of result key = Some v" if "inj_default e = Some (Static v)"
  proof -
    from rest that key src
    have "resolve_keys production after vm (AList.update key v r1) s1 = (Inr result, s')"
      by simp
    from resolve_keys_preserves [OF this na] show ?thesis
      by (simp add: update_conv')
  qed
  have factory: "(\<exists>u. returned (f vm [] (world s1)) = Inr u \<and> map_of result key = Some u)
      \<and> Invoked ''default'' vm [] (Dep_target s1) \<in> set (trace s')"
    if "inj_default e = Some (Factory f)"
  proof -
    obtain x s2 where call: "call_user ''default'' f vm [] s1 = (x, s2)"
      by (cases "call_user ''default'' f vm [] s1")
    from rest that key src call obtain u where u: "x = Inr u"
      and after: "resolve_keys production after vm (AList.update key u r1) s2 = (Inr result, s')"
      by (cases x) auto
    from call u have ret: "returned (f vm [] (world s1)) = Inr u"
      using call_user_frame(4) [of "''default''" f vm "[]" s1] by simp
    from call have tr2: "trace s2 = trace s1 @ [Invoked ''default'' vm [] (Dep_target s1)]"
      using call_user_frame(2) [of "''default''" f vm "[]" s1] by simp
    from resolve_keys_trace_grows [OF after] tr2
    have "Invoked ''default'' vm [] (Dep_target s1) \<in> set (trace s')"
      by auto
    moreover from resolve_keys_preserves [OF after na] have "map_of result key = Some u"
      by (simp add: update_conv')
    ultimately show ?thesis using ret by blast
  qed
  have nodefault: "fst (resolve_keys production [(key, e)] vm r1 s1) = Inr r1
         \<and> map_of result key = None \<and> prop_get result key = Undefined
         \<and> (\<not> production \<longrightarrow>
              Warned (''Injection '' @ quoted key @ '' not found'') vm \<in> set (trace s'))
         \<and> (production \<longrightarrow> snd (resolve_keys production [(key, e)] vm r1 s1) = s1)"
    if nd: "inj_default e = None"
  proof -
    let ?s2 = "if \<not> production
               then warn (''Injection '' @ quoted key @ '' not found'') vm s1 else s1"
    from rest nd key src
    have after: "resolve_keys production after vm r1 ?s2 = (Inr result, s')"
      by simp
    from resolve_keys_preserves [OF after na] r1 have absent: "map_of result key = None"
      by simp
    from resolve_keys_trace_grows [OF after]
    have "\<not> production \<longrightarrow>
            Warned (''Injection '' @ quoted key @ '' not found'') vm \<in> set (trace s')"
      by (auto simp: warn_def)
    with absent nd key src show ?thesis
      by (simp add: prop_get_def)
  qed
  from static factory nodefault show ?thesis by blast
qed


theorem resolveInject_not_provided_witness:
  "fst (resolveInject False
     (Some [(''a'', \<lparr>inj_from = ''a'', inj_default = Some (Static (JNum 1))\<rparr>),
            (''b'', \<lparr>inj_from = ''b'', inj_default = Some (Factory (returning (JNum 2)))\<rparr>),
            (''theme'', \<lparr>inj_from = ''theme'', inj_default = None\<rparr>)])
     (Component None None) (init_state ()))
   = Inr (Some [(''a'', JNum 1), (''b'', JNum 2)]) \<and>
   map_of [(''a'', JNum 1), (''b'', JNum 2)] ''a'' = Some (JNum 1) \<and>
   map_of [(''a'', JNum 1), (''b'', JNum 2)] ''b'' = Some (JNum 2) \<and>
   prop_get [(''a'', JNum 1), (''b'', JNum 2)] ''theme'' = Undefined \<and>
   Warned (''Injection '' @ quoted ''theme'' @ '' not found'') (Component None None)
     \<in> set (trace (snd (resolveInject False
     (Some [(''a'', \<lparr>inj_from = ''a'', inj_default = Some (Static (JNum 1))\<rparr>),
            (''b'', \<lparr>inj_from = ''b'', inj_default = Some (Factory (returning (JNum 2)))\<rparr>),
            (''theme'', \<lparr>inj_from = ''theme'', inj_default = None\<rparr>)])
     (Component None None) (init_state () :: (component, unit) state))))"
proof -
  let ?vm = "Component None None"
  let ?a = "\<lparr>inj_from = ''a'', inj_default = Some (Static (JNum 1))\<rparr>
              :: (component, unit) inject_entry"
  let ?b = "\<lparr>inj_from = ''b'', inj_default = Some (Factory (returning (JNum 2)))\<rparr>
              :: (component, unit) inject_entry"
  let ?t = "\<lparr>inj_from = ''theme'', inj_default = None\<rparr> :: (component, unit) inject_entry"
  let ?s = "init_state () :: (component, unit) state"
  let ?R = "[(''a'', JNum 1), (''b'', JNum 2)]"
  let ?run = "resolveInject False (Some [(''a'', ?a), (''b'', ?b), (''theme'', ?t)]) ?vm ?s"
  have res: "fst ?run = Inr (Some ?R)"
    by (simp add: resolveInject_def call_user_def returning_def Let_def init_state_def
        Dep_target_def warn_def)
  then have run: "?run = (Inr (Some ?R), snd ?run)"
    by (simp add: prod_eq_iff)
  have none: "\<forall>x \<in> set (ownership_chain ?vm). \<not> provides x k" for k
    by (simp add: provides_def)
  have pa: "resolve_keys False [] ?vm [] ?s = (Inr [], ?s)"
    by simp
  have pb: "resolve_keys False [(''a'', ?a)] ?vm [] ?s = (Inr [(''a'', JNum 1)], ?s)"
    by simp
  have pt: "resolve_keys False [(''a'', ?a), (''b'', ?b)] ?vm [] ?s
      = (Inr ?R, snd (resolve_keys False [(''a'', ?a), (''b'', ?b)] ?vm [] ?s))"
    by (simp add: call_user_def returning_def Let_def init_state_def Dep_target_def)
  from resolveInject_not_provided
    [of False "[]" "''a''" ?a "[(''b'', ?b), (''theme'', ?t)]" ?vm ?s ?R "snd ?run" "[]" ?s
      "JNum 1"]
    run none pa
  have a: "map_of ?R ''a'' = Some (JNum 1)" by simp
  from resolveInject_not_provided
    [of False "[(''a'', ?a)]" "''b''" ?b "[(''theme'', ?t)]" ?vm ?s ?R "snd ?run"
      "[(''a'', JNum 1)]" ?s _ "returning (JNum 2)"]
    run none pb
  have b: "\<exists>u. returned (returning (JNum 2) ?vm [] (world ?s)) = Inr u \<and> map_of ?R ''b'' = Some u"
    by simp
  from resolveInject_not_provided
    [of False "[(''a'', ?a), (''b'', ?b)]" "''theme''" ?t "[]" ?vm ?s ?R "snd ?run" ?R
      "snd (resolve_keys False [(''a'', ?a), (''b'', ?b)] ?vm [] ?s)"]
    run none pt
  have t: "prop_get ?R ''theme'' = Undefined \<and>
      Warned (''Injection '' @ quoted ''theme'' @ '' not found'') ?vm \<in> set (trace (snd ?run))"
    by simp
  from a b t res show ?thesis
    by (simp add: returning_def)
qed

text \<open>
  C10. Whatever the inject object holds under the key \<open>__ob__\<close>, the mapping returned by
  \<open>resolveInject\<close> has no binding for \<open>__ob__\<close>.
\<close>

theorem resolveInject_skips_ob:
  "resolveInject production inject vm s = (Inr (Some result), s')
     \<Longrightarrow> map_of result ''__ob__'' = None \<and> ''__ob__'' \<notin> fst ` set result"
proof -
  assume run: "resolveInject production inject vm s = (Inr (Some result), s')"
  then obtain entries where "inject = Some entries"
    and "resolve_keys production entries vm [] s = (Inr result, s')"
    by (auto simp: resolveInject_def split: option.splits prod.splits sum.splits)
  from resolve_keys_ob [OF this(2)] have "map_of result ''__ob__'' = None"
    by simp
  then show ?thesis
    by (simp add: map_of_eq_None_iff)
qed

theorem resolveInject_skips_ob_witness:
  "resolveInject False
     (Some [(''__ob__'', \<lparr>inj_from = ''theme'', inj_default = Some (Static (JNum 0))\<rparr>),
            (''theme'', \<lparr>inj_from = ''theme'', inj_default = None\<rparr>)])
     (Component (Some [(''theme'', JStr ''dark'')]) None) (init_state ())
   = (Inr (Some [(''theme'', JStr ''dark'')]), init_state () :: (component, unit) state) \<and>
   map_of [(''theme'', JStr ''dark'')] ''__ob__'' = None \<and>
   ''__ob__'' \<notin> fst ` set [(''theme'', JStr ''dark'')]"
proof -
  have run: "resolveInject False
     (Some [(''__ob__'', \<lparr>inj_from = ''theme'', inj_default = Some (Static (JNum 0))\<rparr>),
            (''theme'', \<lparr>inj_from = ''theme'', inj_default = None\<rparr>)])
     (Component (Some [(''theme'', JStr ''dark'')]) None) (init_state ())
   = (Inr (Some [(''theme'', JStr ''dark'')]), init_state () :: (component, unit) state)"
    by (simp add: resolveInject_def hasOwn_def source_provided_def prop_get_def)
  from resolveInject_skips_ob [OF run] run show ?thesis
    by simp
qed

subsection \<open>initInjections (C4)\<close>

lemma fold_defineReactive:
  "trace (fold (\<lambda>key. defineReactive vm key (g key) cs sh) ks s)
     = trace s @ map (\<lambda>key. DefinedReactive vm key (g key) cs) ks"
  "shouldObserve (fold (\<lambda>key. defineReactive vm key (g key) cs sh) ks s) = shouldObserve s"
  "targetStack (fold (\<lambda>key. defineReactive vm key (g key) cs sh) ks s) = targetStack s"
  "world (fold (\<lambda>key. defineReactive vm key (g key) cs sh) ks s) = world s"
  by (induction ks arbitrary: s; simp add: defineReactive_def)+

lemma fold_defineReactive_installed:
  "\<not> shouldObserve s \<Longrightarrow> k \<in> set ks
     \<Longrightarrow> map_of (vm_reactive (fold (\<lambda>key. defineReactive vm key (g key) cs False) ks s)) k
           = Some \<lparr>rp_value = g k, rp_childOb = False, rp_customSetter = cs\<rparr>"
proof (induction ks arbitrary: s rule: rev_induct)
  case Nil
  then show ?case by simp
next
  case (snoc x xs)
  have so: "\<not> shouldObserve (fold (\<lambda>key. defineReactive vm key (g key) cs False) xs s)"
    using snoc.prems(1) by (simp add: fold_defineReactive)
  have step: "map_of (vm_reactive (defineReactive vm a v cs False t)) b
      = (if b = a then Some \<lparr>rp_value = v, rp_childOb = observe v t, rp_customSetter = cs\<rparr>
         else map_of (vm_reactive t) b)" for v t a b
    by (simp add: defineReactive_def update_conv')
  show ?case
  proof (cases "k = x")
    case True
    with so show ?thesis
      by (simp add: step observe_def)
  next
    case False
    with snoc.prems have "k \<in> set xs" by simp
    from snoc.IH [OF snoc.prems(1) this] False show ?thesis
      by (simp add: step)
  qed
qed

text \<open>
  C4. When \<open>resolveInject\<close> yields a mapping, \<open>initInjections\<close> calls
  \<open>toggleObserving(false)\<close>, then \<open>defineReactive\<close> on the instance once for every
  binding of the mapping, then \<open>toggleObserving(true)\<close>, and nothing else. Every binding
  ends up as a reactive property holding the resolved value, with no observer created
  for the value; reading the property returns the stored value and calls nothing.
\<close>

theorem initInjections_installs:
  assumes run: "resolveInject production inject vm s = (Inr (Some result), s1)"
  shows "fst (initInjections production inject vm s) = Inr ()
    \<and> trace (snd (initInjections production inject vm s))
        = trace s1 @ [ToggledObserving False]
            @ map (\<lambda>(key, val). DefinedReactive vm key val (\<not> production)) result
            @ [ToggledObserving True]
    \<and> shouldObserve (snd (initInjections production inject vm s))
    \<and> (\<forall>(key, val) \<in> set result.
          map_of (vm_reactive (snd (initInjections production inject vm s))) key
            = Some \<lparr>rp_value = val, rp_childOb = False, rp_customSetter = \<not> production\<rparr>
          \<and> fst (reactive_get key (snd (initInjections production inject vm s))) = val
          \<and> trace (snd (reactive_get key (snd (initInjections production inject vm s))))
              = trace (snd (initInjections production inject vm s)))"
proof -
  let ?install = "fold (\<lambda>key. defineReactive vm key (prop_get result key) (\<not> production) False)
                    (map fst result) (toggleObserving False s1)"
  from run have init: "initInjections production inject vm s = (Inr (), toggleObserving True ?install)"
    by (simp add: initInjections_def)
  from run obtain entries where "resolve_keys production entries vm [] s = (Inr result, s1)"
    by (auto simp: resolveInject_def split: option.splits prod.splits sum.splits)
  from resolve_keys_distinct [OF this] have dist: "distinct (map fst result)"
    by simp
  then have val: "prop_get result key = val" if "(key, val) \<in> set result" for key val
    using that by (simp add: prop_get_def)
  have tr: "trace (toggleObserving True ?install)
        = trace s1 @ [ToggledObserving False]
            @ map (\<lambda>(key, val). DefinedReactive vm key val (\<not> production)) result
            @ [ToggledObserving True]"
    by (auto simp: toggleObserving_def fold_defineReactive dest: val)
  have inst: "map_of (vm_reactive (toggleObserving True ?install)) key
            = Some \<lparr>rp_value = val, rp_childOb = False, rp_customSetter = \<not> production\<rparr>"
    if "(key, val) \<in> set result" for key val
  proof -
    from that have "key \<in> set (map fst result)" by force
    then have "map_of (vm_reactive ?install) key
        = Some \<lparr>rp_value = prop_get result key, rp_childOb = False,
                rp_customSetter = \<not> production\<rparr>"
      by (intro fold_defineReactive_installed) (simp_all add: toggleObserving_def)
    with val [OF that] show ?thesis
      by (simp add: toggleObserving_def)
  qed
  have rd: "fst (reactive_get key (toggleObserving True ?install)) = val
      \<and> trace (snd (reactive_get key (toggleObserving True ?install)))
          = trace (toggleObserving True ?install)"
    if "(key, val) \<in> set result" for key val
    using inst [OF that]
    by (simp add: reactive_get_def dep_depend_def addDep_def Let_def split: option.splits)
  from init tr inst rd show ?thesis
    by (auto simp: toggleObserving_def)
qed


theorem initInjections_installs_witness:
  "fst (initInjections False
          (Some [(''theme'', \<lparr>inj_from = ''theme'', inj_default = None\<rparr>)])
          (Component None (Some (Component (Some [(''theme'', JObj [(''dark'', JBool True)])]) None)))
          (init_state ())) = Inr () \<and>
   trace (snd (initInjections False
          (Some [(''theme'', \<lparr>inj_from = ''theme'', inj_default = None\<rparr>)])
          (Component None (Some (Component (Some [(''theme'', JObj [(''dark'', JBool True)])]) None)))
          (init_state ())))
     = [ToggledObserving False,
        DefinedReactive
          (Component None (Some (Component (Some [(''theme'', JObj [(''dark'', JBool True)])]) None)))
          ''theme'' (JObj [(''dark'', JBool True)]) True,
        ToggledObserving True] \<and>
   map_of (vm_reactive (snd (initInjections False
          (Some [(''theme'', \<lparr>inj_from = ''theme'', inj_default = None\<rparr>)])
          (Component None (Some (Component (Some [(''theme'', JObj [(''dark'', JBool True)])]) None)))
          (init_state () :: (component, unit) state)))) ''theme''
     = Some \<lparr>rp_value = JObj [(''dark'', JBool True)], rp_childOb = False,
              rp_customSetter = True\<rparr>"
proof -
  let ?vm = "Component None (Some (Component (Some [(''theme'', JObj [(''dark'', JBool True)])]) None))"
  let ?inject = "Some [(''theme'', \<lparr>inj_from = ''theme'', inj_default = None\<rparr>)]
                   :: (string \<times> (component, unit) inject_entry) list option"
  have run: "resolveInject False ?inject ?vm (init_state ())
      = (Inr (Some [(''theme'', JObj [(''dark'', JBool True)])]), init_state ())"
    by (simp add: resolveInject_def hasOwn_def source_provided_def prop_get_def)
  from initInjections_installs [OF run] show ?thesis
    by (simp add: init_state_def)
qed

subsection \<open>Evaluation outside the dependency bookkeeping\<close>

lemma untracked_fields:
  "world (untracked s) = world s"
  "targetStack (untracked s) = targetStack s"
  "trace (untracked s) = trace s"
  "vm_watchers (untracked s) = vm_watchers s"
  "computedWatchers (untracked s) = computedWatchers s"
  "shouldObserve (untracked s) = shouldObserve s"
  "vm_reactive (untracked s) = vm_reactive s"
  "vm_accessors (untracked s) = vm_accessors s"
  "length (watchers (untracked s)) = length (watchers s)"
  "Dep_target (untracked s) = Dep_target s"
  by (simp_all add: untracked_def Dep_target_def)

lemma untracked_get_watcher:
  "get_watcher (untracked s) w
     = map_option (\<lambda>r. r\<lparr>w_deps := [], w_newDeps := []\<rparr>) (get_watcher s w)"
  by (simp add: untracked_def get_watcher_def)

lemma untracked_eq_fields:
  assumes "untracked s' = untracked s"
  shows "world s' = world s" "targetStack s' = targetStack s" "trace s' = trace s"
    "vm_watchers s' = vm_watchers s" "computedWatchers s' = computedWatchers s"
    "shouldObserve s' = shouldObserve s" "vm_reactive s' = vm_reactive s"
    "vm_accessors s' = vm_accessors s" "length (watchers s') = length (watchers s)"
    "Dep_target s' = Dep_target s"
  using assms untracked_fields [of s] untracked_fields [of s'] by simp_all

lemma untracked_eq_watcher:
  assumes "untracked s' = untracked s" and "get_watcher s w = Some r"
  shows "\<exists>r'. get_watcher s' w = Some r' \<and> r'\<lparr>w_deps := [], w_newDeps := []\<rparr>
           = r\<lparr>w_deps := [], w_newDeps := []\<rparr>"
proof -
  from assms have "map_option (\<lambda>r. r\<lparr>w_deps := [], w_newDeps := []\<rparr>) (get_watcher s' w)
      = Some (r\<lparr>w_deps := [], w_newDeps := []\<rparr>)"
    using untracked_get_watcher [of s w] untracked_get_watcher [of s' w] by simp
  then show ?thesis by auto
qed

lemma same_core_fields:
  assumes "r'\<lparr>w_deps := [], w_newDeps := []\<rparr> = r\<lparr>w_deps := [], w_newDeps := []\<rparr>"
  shows "w_vm r' = w_vm r" "w_expression r' = w_expression r" "w_getter r' = w_getter r"
    "w_cb r' = w_cb r" "w_lazy r' = w_lazy r" "w_user r' = w_user r" "w_dirty r' = w_dirty r"
    "w_active r' = w_active r" "w_value r' = w_value r"
  using assms by (cases r; cases r'; simp)+

lemma map_update_same:
  "(map (\<lambda>r. r\<lparr>w_deps := [], w_newDeps := []\<rparr>) xs)
     [w := (xs ! w)\<lparr>w_deps := [], w_newDeps := []\<rparr>]
   = map (\<lambda>r. r\<lparr>w_deps := [], w_newDeps := []\<rparr>) xs"
proof -
  let ?f = "\<lambda>r. r\<lparr>w_deps := [], w_newDeps := []\<rparr>"
  have "(map ?f xs)[w := ?f (xs ! w)] = map ?f (xs[w := xs ! w])"
    by (rule map_update [symmetric])
  then show ?thesis by simp
qed

lemma untracked_addDep: "untracked (addDep w d s) = untracked s"
  by (simp add: untracked_def addDep_def Let_def map_update map_update_same)

lemma untracked_dep_depend: "untracked (dep_depend d s) = untracked s"
  by (simp add: dep_depend_def untracked_addDep split: option.splits)

lemma untracked_fold_dep_depend: "untracked (fold dep_depend ds s) = untracked s"
  by (induction ds arbitrary: s) (simp_all add: untracked_dep_depend)

lemma untracked_cleanupDeps: "untracked (cleanupDeps w s) = untracked s"
  by (simp add: cleanupDeps_def untracked_def map_watcher_def get_watcher_def map_update
      map_update_same)

lemma untracked_watcher_depend: "untracked (watcher_depend w s) = untracked s"
  by (simp add: watcher_depend_def untracked_fold_dep_depend split: option.splits)

lemma untracked_simple:
  "untracked (pushTarget t s) = pushTarget t (untracked s)"
  "untracked (popTarget s) = popTarget (untracked s)"
  "untracked (handleError e vm info s) = handleError e vm info (untracked s)"
  "untracked (warn msg vm s) = warn msg vm (untracked s)"
  by (simp_all add: untracked_def pushTarget_def popTarget_def handleError_def warn_def)

lemma untracked_call_user:
  "untracked (snd (call_user role f this args s))
     = (untracked s)\<lparr>world := world_after (f this args (world s)),
                      trace := trace s @ [Invoked role this args (Dep_target s)]\<rparr>"
  by (simp add: call_user_def Let_def untracked_fold_dep_depend) (simp add: untracked_def)

lemma untracked_watcher_at:
  assumes "untracked s' = x" and "get_watcher x w = Some rx"
  shows "\<exists>r'. get_watcher s' w = Some r' \<and> r'\<lparr>w_deps := [], w_newDeps := []\<rparr> = rx"
  using assms untracked_get_watcher [of s' w] by (cases "get_watcher s' w") auto

lemma core_fields:
  assumes "r'\<lparr>w_deps := [], w_newDeps := []\<rparr> = rx"
  shows "w_vm r' = w_vm rx" "w_expression r' = w_expression rx" "w_getter r' = w_getter rx"
    "w_cb r' = w_cb rx" "w_lazy r' = w_lazy rx" "w_user r' = w_user rx"
    "w_dirty r' = w_dirty rx" "w_active r' = w_active rx" "w_value r' = w_value rx"
  using assms by (cases r'; cases rx; simp)+

lemma untracked_map_watcher:
  assumes "\<And>r. (f r)\<lparr>w_deps := [], w_newDeps := []\<rparr> = f (r\<lparr>w_deps := [], w_newDeps := []\<rparr>)"
  shows "untracked (map_watcher w f s) = map_watcher w f (untracked s)"
proof (cases "w < length (watchers s)")
  case True
  then show ?thesis
    by (simp add: untracked_def map_watcher_def map_update assms)
next
  case False
  then show ?thesis
    by (simp add: untracked_def map_watcher_def list_update_beyond)
qed

lemma watcher_get_result:
  assumes "get_watcher s w = Some wr"
  shows "fst (watcher_get w s)
     = (case returned (w_getter wr (w_vm wr) [] (world s)) of
          Inr v \<Rightarrow> Inr v
        | Inl e \<Rightarrow> (if w_user wr then Inr Undefined else Inl e))"
proof -
  obtain x s1 where call:
    "call_user ''getter'' (w_getter wr) (w_vm wr) [] (pushTarget (Some w) s) = (x, s1)"
    by (cases "call_user ''getter'' (w_getter wr) (w_vm wr) [] (pushTarget (Some w) s)")
  then have "x = returned (w_getter wr (w_vm wr) [] (world s))"
    using call_user_frame(4) [of "''getter''" "w_getter wr" "w_vm wr" "[]" "pushTarget (Some w) s"]
    by (simp add: pushTarget_def)
  with call assms show ?thesis
    by (simp add: watcher_get_def split: sum.splits)
qed

lemma untracked_watcher_get:
  assumes "get_watcher s w = Some wr"
  shows "untracked (snd (watcher_get w s))
     = (untracked s)\<lparr>world := world_after (w_getter wr (w_vm wr) [] (world s)),
          trace := trace s @ Invoked ''getter'' (w_vm wr) [] (Some w)
            # (case returned (w_getter wr (w_vm wr) [] (world s)) of
                 Inr v \<Rightarrow> []
               | Inl e \<Rightarrow> (if w_user wr
                            then [HandledError e (w_vm wr)
                                    (''getter for watcher '' @ quoted (w_expression wr))]
                            else []))\<rparr>"
proof -
  let ?p = "pushTarget (Some w) s"
  obtain x s1 where call: "call_user ''getter'' (w_getter wr) (w_vm wr) [] ?p = (x, s1)"
    by (cases "call_user ''getter'' (w_getter wr) (w_vm wr) [] ?p")
  then have x: "x = returned (w_getter wr (w_vm wr) [] (world s))"
    using call_user_frame(4) [of "''getter''" "w_getter wr" "w_vm wr" "[]" ?p]
    by (simp add: pushTarget_def)
  from call have u1: "untracked s1
      = (untracked ?p)\<lparr>world := world_after (w_getter wr (w_vm wr) [] (world s)),
                        trace := trace s @ [Invoked ''getter'' (w_vm wr) [] (Some w)]\<rparr>"
    using untracked_call_user [of "''getter''" "w_getter wr" "w_vm wr" "[]" ?p]
    by (simp add: pushTarget_def Dep_target_def)
  from call x have call': "call_user ''getter'' (w_getter wr) (w_vm wr) [] ?p
      = (returned (w_getter wr (w_vm wr) [] (world s)), s1)"
    by simp
  show ?thesis
  proof (cases "returned (w_getter wr (w_vm wr) [] (world s))")
    case (Inl e)
    with call' assms show ?thesis
      by (simp add: watcher_get_def untracked_simple untracked_cleanupDeps u1)
        (simp add: pushTarget_def popTarget_def handleError_def)
  next
    case (Inr v)
    with call' assms show ?thesis
      by (simp add: watcher_get_def untracked_simple untracked_cleanupDeps u1)
        (simp add: pushTarget_def popTarget_def handleError_def)
  qed
qed

lemma get_watcher_map_watcher:
  "get_watcher (map_watcher w f s) i
     = (if i = w then map_option f (get_watcher s w) else get_watcher s i)"
  by (simp add: get_watcher_def map_watcher_def)

lemma get_watcher_update:
  "get_watcher (s\<lparr>world := x\<rparr>) w = get_watcher s w"
  "get_watcher (s\<lparr>trace := y\<rparr>) w = get_watcher s w"
  "get_watcher (s\<lparr>targetStack := z\<rparr>) w = get_watcher s w"
  "get_watcher (s\<lparr>subs := sb\<rparr>) w = get_watcher s w"
  "get_watcher (s\<lparr>vm_watchers := vw\<rparr>) w = get_watcher s w"
  by (simp_all add: get_watcher_def)

lemma watcher_evaluate_ok:
  assumes "get_watcher s w = Some wr"
    and "returned (w_getter wr (w_vm wr) [] (world s)) = Inr v"
  shows "fst (watcher_evaluate w s) = Inr ()"
    and "untracked (snd (watcher_evaluate w s))
      = map_watcher w (\<lambda>r. r\<lparr>w_value := v, w_dirty := False\<rparr>)
          ((untracked s)\<lparr>world := world_after (w_getter wr (w_vm wr) [] (world s)),
             trace := trace s @ [Invoked ''getter'' (w_vm wr) [] (Some w)]\<rparr>)"
proof -
  obtain x s1 where get: "watcher_get w s = (x, s1)"
    by (cases "watcher_get w s")
  with watcher_get_result [OF assms(1)] assms(2) have x: "x = Inr v"
    by simp
  from get untracked_watcher_get [OF assms(1)] assms(2)
  have u: "untracked s1
      = (untracked s)\<lparr>world := world_after (w_getter wr (w_vm wr) [] (world s)),
           trace := trace s @ [Invoked ''getter'' (w_vm wr) [] (Some w)]\<rparr>"
    by simp
  from get x show "fst (watcher_evaluate w s) = Inr ()"
    by (simp add: watcher_evaluate_def)
  from get x u show "untracked (snd (watcher_evaluate w s))
      = map_watcher w (\<lambda>r. r\<lparr>w_value := v, w_dirty := False\<rparr>)
          ((untracked s)\<lparr>world := world_after (w_getter wr (w_vm wr) [] (world s)),
             trace := trace s @ [Invoked ''getter'' (w_vm wr) [] (Some w)]\<rparr>)"
    by (simp add: watcher_evaluate_def untracked_map_watcher)
qed

subsection \<open>The computed getter (C1)\<close>

lemma computedGetter_clean:
  assumes cw: "computedWatchers s = Some ws" "map_of ws key = Some w"
    and gw: "get_watcher s w = Some wr" and clean: "\<not> w_dirty wr"
  shows "fst (computedGetter key s) = Inr (w_value wr)"
    and "untracked (snd (computedGetter key s)) = untracked s"
    and "Dep_target s = None \<Longrightarrow> snd (computedGetter key s) = s"
proof -
  let ?s2 = "if Dep_target s \<noteq> None then watcher_depend w s else s"
  have u: "untracked ?s2 = untracked s"
    by (simp add: untracked_watcher_depend)
  from untracked_eq_watcher [OF u gw] obtain r' where r': "get_watcher ?s2 w = Some r'"
    and core: "r'\<lparr>w_deps := [], w_newDeps := []\<rparr> = wr\<lparr>w_deps := [], w_newDeps := []\<rparr>"
    by blast
  from same_core_fields(9) [OF core] have val: "w_value r' = w_value wr" .
  from cw gw clean have cg: "computedGetter key s
      = (Inr (case get_watcher ?s2 w of None \<Rightarrow> Undefined | Some r \<Rightarrow> w_value r), ?s2)"
    by (simp add: computedGetter_def Let_def)
  from cg r' val show "fst (computedGetter key s) = Inr (w_value wr)"
    by simp
  from cg u show "untracked (snd (computedGetter key s)) = untracked s"
    by simp
  from cg show "snd (computedGetter key s) = s" if "Dep_target s = None"
    using that by simp
qed

lemma computedGetter_dirty_ok:
  assumes cw: "computedWatchers s = Some ws" "map_of ws key = Some w"
    and gw: "get_watcher s w = Some wr" and dirty: "w_dirty wr"
    and ret: "returned (w_getter wr (w_vm wr) [] (world s)) = Inr v"
  shows "fst (computedGetter key s) = Inr v"
    and "untracked (snd (computedGetter key s))
      = map_watcher w (\<lambda>r. r\<lparr>w_value := v, w_dirty := False\<rparr>)
          ((untracked s)\<lparr>world := world_after (w_getter wr (w_vm wr) [] (world s)),
             trace := trace s @ [Invoked ''getter'' (w_vm wr) [] (Some w)]\<rparr>)"
proof -
  let ?x = "map_watcher w (\<lambda>r. r\<lparr>w_value := v, w_dirty := False\<rparr>)
          ((untracked s)\<lparr>world := world_after (w_getter wr (w_vm wr) [] (world s)),
             trace := trace s @ [Invoked ''getter'' (w_vm wr) [] (Some w)]\<rparr>)"
  obtain u s1 where ev: "watcher_evaluate w s = (u, s1)"
    by (cases "watcher_evaluate w s")
  with watcher_evaluate_ok [OF gw ret] have u: "u = Inr ()" and u1: "untracked s1 = ?x"
    by simp_all
  let ?s2 = "if Dep_target s1 \<noteq> None then watcher_depend w s1 else s1"
  have u2: "untracked ?s2 = ?x"
    using u1 by (simp add: untracked_watcher_depend)
  have "get_watcher ?x w
      = Some ((wr\<lparr>w_deps := [], w_newDeps := []\<rparr>)\<lparr>w_value := v, w_dirty := False\<rparr>)"
    using gw by (simp add: get_watcher_map_watcher get_watcher_update untracked_get_watcher)
  from untracked_watcher_at [OF u2 this] obtain r' where r': "get_watcher ?s2 w = Some r'"
    and core: "r'\<lparr>w_deps := [], w_newDeps := []\<rparr>
        = (wr\<lparr>w_deps := [], w_newDeps := []\<rparr>)\<lparr>w_value := v, w_dirty := False\<rparr>"
    by blast
  from core_fields(9) [OF core] have val: "w_value r' = v"
    by simp
  from cw gw dirty ev u have cg: "computedGetter key s
      = (Inr (case get_watcher ?s2 w of None \<Rightarrow> Undefined | Some r \<Rightarrow> w_value r), ?s2)"
    by (simp add: computedGetter_def Let_def)
  from cg r' val show "fst (computedGetter key s) = Inr v"
    by simp
  from cg u2 show "untracked (snd (computedGetter key s)) = ?x"
    by simp
qed

lemma read_times_clean:
  assumes "computedWatchers s = Some ws" and "map_of ws key = Some w"
    and "get_watcher s w = Some wr" and "\<not> w_dirty wr"
  shows "fst (read_times n key s) = replicate n (Inr (w_value wr))
    \<and> untracked (snd (read_times n key s)) = untracked s"
  using assms
proof (induction n arbitrary: s wr)
  case 0
  then show ?case by simp
next
  case (Suc n)
  obtain r s1 where step: "computedGetter key s = (r, s1)"
    by (cases "computedGetter key s")
  from computedGetter_clean(1,2) [OF Suc.prems] step
  have r: "r = Inr (w_value wr)" and u1: "untracked s1 = untracked s"
    by simp_all
  from untracked_eq_fields(5) [OF u1] Suc.prems(1) have cw1: "computedWatchers s1 = Some ws"
    by simp
  from untracked_eq_watcher [OF u1 Suc.prems(3)] obtain r1 where r1: "get_watcher s1 w = Some r1"
    and core: "r1\<lparr>w_deps := [], w_newDeps := []\<rparr> = wr\<lparr>w_deps := [], w_newDeps := []\<rparr>"
    by blast
  from same_core_fields(7,9) [OF core] Suc.prems(4)
  have clean1: "\<not> w_dirty r1" and val1: "w_value r1 = w_value wr"
    by simp_all
  from Suc.IH [OF cw1 Suc.prems(2) r1 clean1] val1 u1
  have "fst (read_times n key s1) = replicate n (Inr (w_value wr))
      \<and> untracked (snd (read_times n key s1)) = untracked s"
    by simp
  with step r show ?case
    by (auto split: prod.splits)
qed

lemma addDep_frame:
  "Dep_target (addDep t d s) = Dep_target s"
  "length (watchers (addDep t d s)) = length (watchers s)"
  by (simp_all add: addDep_def Dep_target_def Let_def)

lemma addDep_adds:
  "t < length (watchers s) \<Longrightarrow>
     d \<in> set (w_newDeps (watchers (addDep t d s) ! t)) \<and> t \<in> set (subs (addDep t d s) d)"
  by (simp add: addDep_def Let_def)

lemma addDep_keeps:
  "d' \<in> set (w_newDeps (watchers s ! t)) \<Longrightarrow> d' \<in> set (w_newDeps (watchers (addDep t d s) ! t))"
  "t' \<in> set (subs s d') \<Longrightarrow> t' \<in> set (subs (addDep t d s) d')"
  by (auto simp: addDep_def Let_def)

lemma addDep_deps: "w_deps (watchers (addDep t d s) ! i) = w_deps (watchers s ! i)"
  by (cases "i = t") (simp_all add: addDep_def Let_def)

lemma fold_addDep_frame:
  "length (watchers (fold (addDep t) ds s)) = length (watchers s)"
  "w_deps (watchers (fold (addDep t) ds s) ! i) = w_deps (watchers s ! i)"
  by (induction ds arbitrary: s) (simp_all add: addDep_frame addDep_deps)

lemma fold_addDep_keeps:
  "d' \<in> set (w_newDeps (watchers s ! t))
     \<Longrightarrow> d' \<in> set (w_newDeps (watchers (fold (addDep t) ds s) ! t))"
  "t' \<in> set (subs s d') \<Longrightarrow> t' \<in> set (subs (fold (addDep t) ds s) d')"
  by (induction ds arbitrary: s) (simp_all add: addDep_keeps)

lemma fold_addDep_adds:
  "t < length (watchers s) \<Longrightarrow> d \<in> set ds \<Longrightarrow>
     d \<in> set (w_newDeps (watchers (fold (addDep t) ds s) ! t))
     \<and> t \<in> set (subs (fold (addDep t) ds s) d)"
proof (induction ds arbitrary: s)
  case Nil
  then show ?case by simp
next
  case (Cons a ds)
  show ?case
  proof (cases "d = a")
    case True
    from addDep_adds [OF Cons.prems(1), of a] True show ?thesis
      by (simp add: fold_addDep_keeps)
  next
    case False
    with Cons.prems have "d \<in> set ds" by simp
    moreover from Cons.prems(1) have "t < length (watchers (addDep t a s))"
      by (simp add: addDep_frame)
    ultimately show ?thesis
      using Cons.IH [of "addDep t a s"] by simp
  qed
qed

lemma fold_dep_depend_target:
  "Dep_target s = Some t \<Longrightarrow> fold dep_depend ds s = fold (addDep t) ds s"
  by (induction ds arbitrary: s) (simp_all add: dep_depend_def addDep_frame)

lemma watcher_depend_attaches:
  assumes "Dep_target s = Some t" and "t < length (watchers s)"
    and "get_watcher s w = Some wr"
  shows "\<forall>d \<in> set (w_deps (watchers (watcher_depend w s) ! w)).
           d \<in> set (w_newDeps (watchers (watcher_depend w s) ! t))
           \<and> t \<in> set (subs (watcher_depend w s) d)"
proof -
  from assms(1,3) have wd: "watcher_depend w s = fold (addDep t) (w_deps wr) s"
    by (simp add: watcher_depend_def fold_dep_depend_target)
  from assms(3) have "watchers s ! w = wr"
    by (simp add: get_watcher_def split: if_splits)
  then have "w_deps (watchers (watcher_depend w s) ! w) = w_deps wr"
    by (simp add: wd fold_addDep_frame)
  with fold_addDep_adds [OF assms(2)] show ?thesis
    by (simp add: wd)
qed

lemma watcher_evaluate_frame:
  assumes "get_watcher s w = Some wr"
  shows "targetStack (snd (watcher_evaluate w s)) = targetStack s"
    and "length (watchers (snd (watcher_evaluate w s))) = length (watchers s)"
proof -
  obtain x s1 where get: "watcher_get w s = (x, s1)"
    by (cases "watcher_get w s")
  from untracked_watcher_get [OF assms] get obtain wd tr where
    u: "untracked s1 = (untracked s)\<lparr>world := wd, trace := tr\<rparr>"
    by simp
  have "targetStack s1 = targetStack (untracked s1)" "length (watchers s1) = length (watchers (untracked s1))"
    by (simp_all add: untracked_fields)
  with u have f: "targetStack s1 = targetStack s" "length (watchers s1) = length (watchers s)"
    by (simp_all add: untracked_fields)
  from get f show "targetStack (snd (watcher_evaluate w s)) = targetStack s"
    by (cases x) (simp_all add: watcher_evaluate_def map_watcher_def)
  from get f show "length (watchers (snd (watcher_evaluate w s))) = length (watchers s)"
    by (cases x) (simp_all add: watcher_evaluate_def map_watcher_def)
qed

lemma computedGetter_depends:
  assumes cw: "computedWatchers s = Some ws" "map_of ws key = Some w"
    and gw: "get_watcher s w = Some wr"
    and tg: "Dep_target s = Some t" "t < length (watchers s)"
    and ok: "fst (computedGetter key s) = Inr u"
  shows "\<forall>d \<in> set (w_deps (watchers (snd (computedGetter key s)) ! w)).
           d \<in> set (w_newDeps (watchers (snd (computedGetter key s)) ! t))
           \<and> t \<in> set (subs (snd (computedGetter key s)) d)"
proof -
  obtain x s1 where ev: "(if w_dirty wr then watcher_evaluate w s else (Inr (), s)) = (x, s1)"
    by (cases "if w_dirty wr then watcher_evaluate w s else (Inr (), s)")
  from ok cw gw ev have x: "x = Inr ()"
    by (cases x) (simp_all add: computedGetter_def)
  from ev watcher_evaluate_frame [OF gw]
  have f: "targetStack s1 = targetStack s" "length (watchers s1) = length (watchers s)"
    by (auto split: if_splits)
  with tg have tg1: "Dep_target s1 = Some t" "t < length (watchers s1)"
    by (simp_all add: Dep_target_def)
  from gw f have "get_watcher s1 w = Some (watchers s1 ! w)"
    by (simp add: get_watcher_def split: if_splits)
  from watcher_depend_attaches [OF tg1 this]
  have att: "\<forall>d \<in> set (w_deps (watchers (watcher_depend w s1) ! w)).
           d \<in> set (w_newDeps (watchers (watcher_depend w s1) ! t))
           \<and> t \<in> set (subs (watcher_depend w s1) d)" .
  from cw gw ev x tg1 have "snd (computedGetter key s) = watcher_depend w s1"
    by (simp add: computedGetter_def Let_def)
  with att show ?thesis by simp
qed

text \<open>
  C1. For a computed key that has its Watcher: when the Watcher is clean, a read returns
  the cached value, changes nothing but subscriptions (with no active target it changes
  nothing at all), and any number of reads in a row return the cached value without a
  single call leaving the layer. When the Watcher is dirty and its getter returns \<open>v\<close>,
  a read calls the getter once, caches \<open>v\<close>, clears \<open>dirty\<close> and returns \<open>v\<close>, and any
  number of reads in a row call the getter exactly once. With an active target, after a
  read every Dep the Watcher holds belongs to the target's new deps and has the target as
  a subscriber. With caching enabled \<open>defineComputed\<close> installs exactly this getter.
\<close>

theorem computedGetter_memoizes:
  assumes "computedWatchers s = Some ws" and "map_of ws key = Some w"
    and "get_watcher s w = Some wr"
  shows "(\<not> w_dirty wr \<longrightarrow>
            fst (computedGetter key s) = Inr (w_value wr)
          \<and> untracked (snd (computedGetter key s)) = untracked s
          \<and> (Dep_target s = None \<longrightarrow> snd (computedGetter key s) = s)
          \<and> fst (read_times n key s) = replicate n (Inr (w_value wr))
          \<and> trace (snd (read_times n key s)) = trace s
          \<and> world (snd (read_times n key s)) = world s)
    \<and> (w_dirty wr \<and> returned (w_getter wr (w_vm wr) [] (world s)) = Inr v \<longrightarrow>
            fst (computedGetter key s) = Inr v
          \<and> untracked (snd (computedGetter key s))
              = map_watcher w (\<lambda>r. r\<lparr>w_value := v, w_dirty := False\<rparr>)
                  ((untracked s)\<lparr>world := world_after (w_getter wr (w_vm wr) [] (world s)),
                     trace := trace s @ [Invoked ''getter'' (w_vm wr) [] (Some w)]\<rparr>)
          \<and> fst (read_times (Suc n) key s) = replicate (Suc n) (Inr v)
          \<and> trace (snd (read_times (Suc n) key s))
              = trace s @ [Invoked ''getter'' (w_vm wr) [] (Some w)])
    \<and> (Dep_target s = Some t \<and> t < length (watchers s)
          \<and> fst (computedGetter key s) = Inr u \<longrightarrow>
          (\<forall>d \<in> set (w_deps (watchers (snd (computedGetter key s)) ! w)).
              d \<in> set (w_newDeps (watchers (snd (computedGetter key s)) ! t))
            \<and> t \<in> set (subs (snd (computedGetter key s)) d)))
    \<and> (\<not> serverRendering \<longrightarrow>
          map_of (vm_accessors (defineComputed production serverRendering key (DefFunction f) s0)) key
            = Some (ComputedGetter key, if production then SetNoop else SetWarn key)
          \<and> run_getter (ComputedGetter key) vm s = computedGetter key s)"
proof -
  have clean: "fst (computedGetter key s) = Inr (w_value wr)
          \<and> untracked (snd (computedGetter key s)) = untracked s
          \<and> (Dep_target s = None \<longrightarrow> snd (computedGetter key s) = s)
          \<and> fst (read_times n key s) = replicate n (Inr (w_value wr))
          \<and> trace (snd (read_times n key s)) = trace s
          \<and> world (snd (read_times n key s)) = world s"
    if c: "\<not> w_dirty wr"
  proof -
    from read_times_clean [OF assms c, of n]
    have rt: "fst (read_times n key s) = replicate n (Inr (w_value wr))"
      and u: "untracked (snd (read_times n key s)) = untracked s"
      by simp_all
    from computedGetter_clean [OF assms c] rt untracked_eq_fields(1,3) [OF u] show ?thesis
      by simp
  qed
  have dirty: "fst (computedGetter key s) = Inr v
          \<and> untracked (snd (computedGetter key s))
              = map_watcher w (\<lambda>r. r\<lparr>w_value := v, w_dirty := False\<rparr>)
                  ((untracked s)\<lparr>world := world_after (w_getter wr (w_vm wr) [] (world s)),
                     trace := trace s @ [Invoked ''getter'' (w_vm wr) [] (Some w)]\<rparr>)
          \<and> fst (read_times (Suc n) key s) = replicate (Suc n) (Inr v)
          \<and> trace (snd (read_times (Suc n) key s))
              = trace s @ [Invoked ''getter'' (w_vm wr) [] (Some w)]"
    if d: "w_dirty wr" and ret: "returned (w_getter wr (w_vm wr) [] (world s)) = Inr v"
  proof -
    let ?x = "map_watcher w (\<lambda>r. r\<lparr>w_value := v, w_dirty := False\<rparr>)
                  ((untracked s)\<lparr>world := world_after (w_getter wr (w_vm wr) [] (world s)),
                     trace := trace s @ [Invoked ''getter'' (w_vm wr) [] (Some w)]\<rparr>)"
    obtain r s1 where step: "computedGetter key s = (r, s1)"
      by (cases "computedGetter key s")
    from computedGetter_dirty_ok [OF assms d ret] step
    have r: "r = Inr v" and u1: "untracked s1 = ?x"
      by simp_all
    have gx: "get_watcher ?x w
        = Some ((wr\<lparr>w_deps := [], w_newDeps := []\<rparr>)\<lparr>w_value := v, w_dirty := False\<rparr>)"
      using assms(3) by (simp add: get_watcher_map_watcher get_watcher_update untracked_get_watcher)
    from untracked_watcher_at [OF u1 gx] obtain r1 where r1: "get_watcher s1 w = Some r1"
      and core: "r1\<lparr>w_deps := [], w_newDeps := []\<rparr>
          = (wr\<lparr>w_deps := [], w_newDeps := []\<rparr>)\<lparr>w_value := v, w_dirty := False\<rparr>"
      by blast
    from core_fields(7,9) [OF core] have c1: "\<not> w_dirty r1" and v1: "w_value r1 = v"
      by simp_all
    have "computedWatchers s1 = computedWatchers (untracked s1)" "trace s1 = trace (untracked s1)"
      by (simp_all add: untracked_fields)
    with u1 assms(1) have cw1: "computedWatchers s1 = Some ws"
      and tr1: "trace s1 = trace s @ [Invoked ''getter'' (w_vm wr) [] (Some w)]"
      by (simp_all add: map_watcher_def untracked_fields)
    from read_times_clean [OF cw1 assms(2) r1 c1, of n] v1
    have rt: "fst (read_times n key s1) = replicate n (Inr v)"
      and u: "untracked (snd (read_times n key s1)) = untracked s1"
      by simp_all
    from step r rt untracked_eq_fields(3) [OF u] tr1
    have "fst (read_times (Suc n) key s) = replicate (Suc n) (Inr v)
        \<and> trace (snd (read_times (Suc n) key s))
            = trace s @ [Invoked ''getter'' (w_vm wr) [] (Some w)]"
      by (auto split: prod.splits)
    with computedGetter_dirty_ok [OF assms d ret] show ?thesis
      by simp
  qed
  have inst: "map_of (vm_accessors (defineComputed production serverRendering key (DefFunction f) s0)) key
            = Some (ComputedGetter key, if production then SetNoop else SetWarn key)
          \<and> run_getter (ComputedGetter key) vm s = computedGetter key s"
    if "\<not> serverRendering"
    using that by (simp add: defineComputed_def run_getter_def update_conv')
  from clean dirty computedGetter_depends [OF assms] inst show ?thesis
    by blast
qed

lemmas model_defs =
  init_state_def sum_state_def sum_getter_def returning_def throwing_def new_Watcher_def
  no_options_def computedGetter_def get_watcher_def watcher_evaluate_def watcher_get_def
  call_user_def pushTarget_def popTarget_def cleanupDeps_def map_watcher_def dep_depend_def
  addDep_def Dep_target_def watcher_depend_def handleError_def Let_def

theorem computedGetter_memoizes_witness:
  "fst (read_times (Suc 4) ''sum'' sum_state) = replicate (Suc 4) (Inr (JNum 3)) \<and>
   trace (snd (read_times (Suc 4) ''sum'' sum_state)) = [Invoked ''getter'' 0 [] (Some 0)] \<and>
   fst (read_times 3 ''sum'' (snd (computedGetter ''sum'' sum_state)))
     = replicate 3 (Inr (JNum 3)) \<and>
   trace (snd (read_times 3 ''sum'' (snd (computedGetter ''sum'' sum_state))))
     = [Invoked ''getter'' 0 [] (Some 0)] \<and>
   ''a'' \<in> set (w_newDeps (watchers
              (snd (computedGetter ''sum'' (pushTarget (Some 1) sum_state))) ! 1)) \<and>
   1 \<in> set (subs (snd (computedGetter ''sum'' (pushTarget (Some 1) sum_state))) ''b'')"
proof -
  let ?wr = "\<lparr>w_vm = 0::nat, w_expression = ''sum'',
               w_getter = sum_getter :: (nat, int \<times> int) ufun, w_cb = Some noop,
               w_lazy = True, w_user = False, w_dirty = True, w_active = True,
               w_value = Undefined, w_deps = [], w_newDeps = []\<rparr>"
  have cw: "computedWatchers sum_state = Some [(''sum'', 0)]"
    and gw: "get_watcher sum_state 0 = Some ?wr"
    and tr: "trace sum_state = []"
    by (simp_all add: model_defs)
  have ret: "returned (w_getter ?wr (w_vm ?wr) [] (world sum_state)) = Inr (JNum 3)"
    by (simp add: model_defs)
  from computedGetter_memoizes [where key = "''sum''" and n = 4 and v = "JNum 3" and t = 0
      and u = Undefined and serverRendering = True and production = True
      and f = "returning Null" and ?s0.0 = sum_state and vm = 0, OF cw _ gw] ret tr
  have dirty: "fst (read_times (Suc 4) ''sum'' sum_state) = replicate (Suc 4) (Inr (JNum 3))
      \<and> trace (snd (read_times (Suc 4) ''sum'' sum_state)) = [Invoked ''getter'' 0 [] (Some 0)]"
    by simp
  let ?s1 = "snd (computedGetter ''sum'' sum_state)"
  let ?wr1 = "?wr\<lparr>w_dirty := False, w_value := JNum 3, w_deps := [''a'', ''b'']\<rparr>"
  have cw1: "computedWatchers ?s1 = Some [(''sum'', 0)]"
    and gw1: "get_watcher ?s1 0 = Some ?wr1"
    and tr1: "trace ?s1 = [Invoked ''getter'' 0 [] (Some 0)]"
    by (simp_all add: model_defs)
  from computedGetter_memoizes [where key = "''sum''" and n = 3 and v = "JNum 3" and t = 0
      and u = Undefined and serverRendering = True and production = True
      and f = "returning Null" and ?s0.0 = sum_state and vm = 0, OF cw1 _ gw1] tr1
  have clean: "fst (read_times 3 ''sum'' ?s1) = replicate 3 (Inr (JNum 3))
      \<and> trace (snd (read_times 3 ''sum'' ?s1)) = [Invoked ''getter'' 0 [] (Some 0)]"
    by simp
  let ?st = "pushTarget (Some 1) sum_state"
  have cwt: "computedWatchers ?st = Some [(''sum'', 0)]"
    and gwt: "get_watcher ?st 0 = Some ?wr"
    and tgt: "Dep_target ?st = Some 1" "1 < length (watchers ?st)"
    and okt: "fst (computedGetter ''sum'' ?st) = Inr (JNum 3)"
    and deps: "w_deps (watchers (snd (computedGetter ''sum'' ?st)) ! 0) = [''a'', ''b'']"
    by (simp_all add: model_defs)
  from computedGetter_memoizes [where key = "''sum''" and n = 0 and v = "JNum 3" and t = 1
      and u = "JNum 3" and serverRendering = True and production = True
      and f = "returning Null" and ?s0.0 = sum_state and vm = 0, OF cwt _ gwt] tgt okt deps
  have target: "''a'' \<in> set (w_newDeps (watchers (snd (computedGetter ''sum'' ?st)) ! 1))
      \<and> 1 \<in> set (subs (snd (computedGetter ''sum'' ?st)) ''b'')"
    by simp
  from dirty clean target show ?thesis
    by simp
qed

subsection \<open>Computed properties without a setter (C9)\<close>

text \<open>
  C9. A computed property defined without a setter (a function, or an object with no
  \<open>set\<close>) gets the no-op setter in production and the warning setter otherwise. An
  assignment through that setter returns normally; in production the state is left as it
  was, otherwise the only change is one more warning in the log.
\<close>

theorem defineComputed_no_setter:
  "map_option snd
     (map_of (vm_accessors (defineComputed production serverRendering key (DefFunction f) s0)) key)
     = Some (if production then SetNoop else SetWarn key)
   \<and> map_option snd
     (map_of (vm_accessors (defineComputed production serverRendering key
        (DefObject \<lparr>cd_get = g, cd_set = None, cd_cache = c\<rparr>) s0)) key)
     = Some (if production then SetNoop else SetWarn key)
   \<and> run_setter (if production then SetNoop else SetWarn key) vm val s
     = (Inr (),
        if production then s
        else s\<lparr>trace := trace s @
               [Warned (''Computed property '' @ quoted key
                         @ '' was assigned to but it has no setter.'') vm]\<rparr>)"
  by (simp add: defineComputed_def run_setter_def warn_def update_conv')

theorem defineComputed_no_setter_witness:
  "run_setter SetNoop (0::nat) (JNum 7) (snd (computedGetter ''sum'' sum_state))
     = (Inr (), snd (computedGetter ''sum'' sum_state)) \<and>
   run_setter (SetWarn ''sum'') (0::nat) (JNum 7) sum_state
     = (Inr (), sum_state\<lparr>trace := trace sum_state @
          [Warned (''Computed property '' @ quoted ''sum''
                    @ '' was assigned to but it has no setter.'') 0]\<rparr>) \<and>
   map_option snd
     (map_of (vm_accessors (defineComputed False False ''sum'' (DefFunction sum_getter) sum_state))
        ''sum'')
     = Some (SetWarn ''sum'')"
  using defineComputed_no_setter [where production = True and key = "''sum''" and vm = "0::nat"
      and val = "JNum 7" and s = "snd (computedGetter ''sum'' sum_state)"
      and serverRendering = False and f = sum_getter and ?s0.0 = sum_state
      and g = None and c = Undefined]
    defineComputed_no_setter [where production = False and key = "''sum''" and vm = "0::nat"
      and val = "JNum 7" and s = sum_state
      and serverRendering = False and f = sum_getter and ?s0.0 = sum_state
      and g = None and c = Undefined]
  by simp

subsection \<open>$watch and the active-target stack (C6, C7)\<close>

lemma new_Watcher_lazy:
  "opt_lazy options \<Longrightarrow>
     new_Watcher vm expression getter cb options s
       = (Inr (length (watchers s)),
          s\<lparr>watchers := watchers s @
               [\<lparr>w_vm = vm, w_expression = expression, w_getter = getter, w_cb = cb,
                 w_lazy = True, w_user = opt_user options, w_dirty = True, w_active = True,
                 w_value = Undefined, w_deps = [], w_newDeps = []\<rparr>],
             vm_watchers := vm_watchers s @ [length (watchers s)]\<rparr>)"
  by (simp add: new_Watcher_def Let_def)

lemma new_Watcher_user:
  assumes "opt_user options"
  shows "fst (new_Watcher vm expression getter cb options s) = Inr (length (watchers s))"
    and "targetStack (snd (new_Watcher vm expression getter cb options s)) = targetStack s"
    and "\<exists>r. get_watcher (snd (new_Watcher vm expression getter cb options s)) (length (watchers s))
            = Some r \<and> w_user r \<and> w_getter r = getter \<and> w_cb r = cb \<and> w_vm r = vm
            \<and> w_expression r = expression \<and> w_active r"
    and "trace (snd (new_Watcher vm expression getter cb options s))
           = trace s @
             (if opt_lazy options then []
              else Invoked ''getter'' vm [] (Some (length (watchers s)))
                     # (case returned (getter vm [] (world s)) of
                          Inl e \<Rightarrow> [HandledError e vm
                                     (''getter for watcher '' @ quoted expression)]
                        | Inr v \<Rightarrow> []))"
proof -
  let ?w = "length (watchers s)"
  let ?wr = "\<lparr>w_vm = vm, w_expression = expression, w_getter = getter, w_cb = cb,
               w_lazy = opt_lazy options, w_user = opt_user options,
               w_dirty = opt_lazy options, w_active = True, w_value = Undefined,
               w_deps = [], w_newDeps = []\<rparr>"
  let ?s1 = "s\<lparr>watchers := watchers s @ [?wr], vm_watchers := vm_watchers s @ [?w]\<rparr>"
  have gw: "get_watcher ?s1 ?w = Some ?wr"
    by (simp add: get_watcher_def)
  obtain x s2 where get: "watcher_get ?w ?s1 = (x, s2)"
    by (cases "watcher_get ?w ?s1")
  from watcher_get_result [OF gw] get assms obtain v where x: "x = Inr v"
    by (cases "returned (getter vm [] (world s))") auto
  from untracked_watcher_get [OF gw] get obtain wd tr where
    u: "untracked s2 = (untracked ?s1)\<lparr>world := wd, trace := tr\<rparr>"
    by simp
  have gu: "get_watcher ((untracked ?s1)\<lparr>world := wd, trace := tr\<rparr>) ?w
      = Some (?wr\<lparr>w_deps := [], w_newDeps := []\<rparr>)"
    using gw by (simp add: get_watcher_update untracked_get_watcher del: get_watcher_def)
  from untracked_watcher_at [OF u gu] obtain r2 where r2: "get_watcher s2 ?w = Some r2"
    and core: "r2\<lparr>w_deps := [], w_newDeps := []\<rparr> = ?wr\<lparr>w_deps := [], w_newDeps := []\<rparr>"
    by blast
  have ts: "targetStack s2 = targetStack s"
    using u untracked_fields(2) [of s2] by (simp add: untracked_fields)
  have nw: "new_Watcher vm expression getter cb options s
      = (if opt_lazy options then (Inr ?w, ?s1)
         else (Inr ?w, map_watcher ?w (\<lambda>r. r\<lparr>w_value := v\<rparr>) s2))"
  proof (cases "opt_lazy options")
    case True
    then show ?thesis by (simp add: new_Watcher_def Let_def)
  next
    case False
    with get x show ?thesis by (simp add: new_Watcher_def Let_def)
  qed
  from nw show "fst (new_Watcher vm expression getter cb options s) = Inr ?w"
    by simp
  from nw ts show "targetStack (snd (new_Watcher vm expression getter cb options s)) = targetStack s"
    by (simp add: map_watcher_def)
  from nw r2 core_fields [OF core] assms
  show "\<exists>r. get_watcher (snd (new_Watcher vm expression getter cb options s)) ?w
            = Some r \<and> w_user r \<and> w_getter r = getter \<and> w_cb r = cb \<and> w_vm r = vm
            \<and> w_expression r = expression \<and> w_active r"
    by (cases "opt_lazy options") (simp_all add: get_watcher_map_watcher, simp add: get_watcher_def)
  from untracked_watcher_get [OF gw] get assms
  have "trace (untracked s2)
      = trace s @ Invoked ''getter'' vm [] (Some ?w)
          # (case returned (getter vm [] (world s)) of
               Inl e \<Rightarrow> [HandledError e vm (''getter for watcher '' @ quoted expression)]
             | Inr v \<Rightarrow> [])"
    by (simp add: untracked_fields split: sum.splits)
  with nw show "trace (snd (new_Watcher vm expression getter cb options s))
           = trace s @
             (if opt_lazy options then []
              else Invoked ''getter'' vm [] (Some ?w)
                     # (case returned (getter vm [] (world s)) of
                          Inl e \<Rightarrow> [HandledError e vm
                                     (''getter for watcher '' @ quoted expression)]
                        | Inr v \<Rightarrow> []))"
    by (simp add: untracked_fields map_watcher_def)
qed

lemma invokeWithErrorHandling_frame:
  "targetStack (invokeWithErrorHandling h ctx args vm info s) = targetStack s"
  "trace (invokeWithErrorHandling h ctx args vm info s)
     = trace s @
       (case h of
          None \<Rightarrow> [HandledError (JStr ''TypeError: handler is not a function'') vm info]
        | Some f \<Rightarrow>
            Invoked ''callback'' ctx args (Dep_target s)
              # (case returned (f ctx args (world s)) of
                   Inl e \<Rightarrow> [HandledError e vm info]
                 | Inr v \<Rightarrow> []))"
proof -
  show "targetStack (invokeWithErrorHandling h ctx args vm info s) = targetStack s"
  proof (cases h)
    case None
    then show ?thesis by (simp add: invokeWithErrorHandling_def handleError_def)
  next
    case (Some f)
    obtain x s1 where call: "call_user ''callback'' f ctx args s = (x, s1)"
      by (cases "call_user ''callback'' f ctx args s")
    with call_user_frame(1) [of "''callback''" f ctx args s] Some show ?thesis
      by (cases x) (simp_all add: invokeWithErrorHandling_def handleError_def)
  qed
  show "trace (invokeWithErrorHandling h ctx args vm info s)
     = trace s @
       (case h of
          None \<Rightarrow> [HandledError (JStr ''TypeError: handler is not a function'') vm info]
        | Some f \<Rightarrow>
            Invoked ''callback'' ctx args (Dep_target s)
              # (case returned (f ctx args (world s)) of
                   Inl e \<Rightarrow> [HandledError e vm info]
                 | Inr v \<Rightarrow> []))"
  proof (cases h)
    case None
    then show ?thesis by (simp add: invokeWithErrorHandling_def handleError_def)
  next
    case (Some f)
    obtain x s1 where call: "call_user ''callback'' f ctx args s = (x, s1)"
      by (cases "call_user ''callback'' f ctx args s")
    with call_user_frame(2,4) [of "''callback''" f ctx args s]
    have x: "returned (f ctx args (world s)) = x"
      and tr: "trace s1 = trace s @ [Invoked ''callback'' ctx args (Dep_target s)]"
      by simp_all
    from call x tr Some show ?thesis
      by (cases x) (simp_all add: invokeWithErrorHandling_def handleError_def)
  qed
qed

lemma watch_body_targetStack:
  "targetStack (snd (watch_body vm expression getter cb options s)) = targetStack s"
proof -
  let ?opts = "(case options of None \<Rightarrow> no_options | Some opts \<Rightarrow> opts)\<lparr>opt_user := True\<rparr>"
  obtain x s1 where nw: "new_Watcher vm expression getter cb ?opts s = (x, s1)"
    by (cases "new_Watcher vm expression getter cb ?opts s")
  from new_Watcher_user(1,2) [of ?opts vm expression getter cb s] nw
  have x: "x = Inr (length (watchers s))" and ts: "targetStack s1 = targetStack s"
    by simp_all
  from nw x ts show ?thesis
    by (simp add: watch_body_def Let_def popTarget_def invokeWithErrorHandling_frame)
      (simp add: pushTarget_def)
qed

lemma watch_targetStack:
  "targetStack (snd (createWatcher members vm expression getter handler options s)) = targetStack s"
  "targetStack (snd (watch members vm expression getter c options s)) = targetStack s"
  by (induction members vm expression getter handler options s
      and members vm expression getter c options s rule: createWatcher_watch.induct)
    (simp_all add: watch_body_targetStack)

text \<open>
  C6. \<open>getData\<close> leaves the active-target stack, and with it \<open>Dep.target\<close>, as it found
  them, whether the data function returns or throws, and the data function runs under
  the pushed empty target. \<open>$watch\<close> and \<open>createWatcher\<close> leave the stack as they found
  it for every kind of callback and every option.
\<close>

theorem target_stack_restored:
  "targetStack (snd (getData data vm s)) = targetStack s
   \<and> Dep_target (snd (getData data vm s)) = Dep_target s
   \<and> (\<exists>tr. trace (snd (getData data vm s)) = trace s @ Invoked ''data'' vm [ArgVm vm] None # tr)
   \<and> targetStack (snd (watch members vm expression getter c options s)) = targetStack s
   \<and> targetStack (snd (createWatcher members vm expression getter c options s)) = targetStack s"
proof -
  obtain x s1 where call: "call_user ''data'' data vm [ArgVm vm] (pushTarget None s) = (x, s1)"
    by (cases "call_user ''data'' data vm [ArgVm vm] (pushTarget None s)")
  with call_user_frame(1,2) [of "''data''" data vm "[ArgVm vm]" "pushTarget None s"]
  have ts: "targetStack s1 = None # targetStack s"
    and tr: "trace s1 = trace s @ [Invoked ''data'' vm [ArgVm vm] None]"
    by (simp_all add: pushTarget_def Dep_target_def)
  from call ts tr have "targetStack (snd (getData data vm s)) = targetStack s
      \<and> (\<exists>tr. trace (snd (getData data vm s)) = trace s @ Invoked ''data'' vm [ArgVm vm] None # tr)"
    by (cases x) (simp_all add: getData_def popTarget_def handleError_def)
  then show ?thesis
    by (simp add: watch_targetStack Dep_target_def)
qed

theorem target_stack_restored_witness:
  "targetStack (snd (getData (throwing (JStr ''boom'')) (0::nat) (pushTarget (Some 1) sum_state)))
     = [Some 1] \<and>
   Dep_target (snd (getData (throwing (JStr ''boom'')) (0::nat) (pushTarget (Some 1) sum_state)))
     = Some 1 \<and>
   targetStack (snd (watch (\<lambda>name. None) (0::nat) ''sum'' sum_getter
       (CbFunction (throwing (JStr ''boom'')))
       (Some (no_options\<lparr>opt_immediate := True\<rparr>)) (pushTarget (Some 1) sum_state)))
     = [Some 1]"
  using target_stack_restored [where data = "throwing (JStr ''boom'')" and vm = "0::nat"
      and s = "pushTarget (Some 1) sum_state" and members = "\<lambda>name. None"
      and expression = "''sum''" and getter = sum_getter
      and c = "CbFunction (throwing (JStr ''boom''))"
      and options = "Some (no_options\<lparr>opt_immediate := True\<rparr>)"]
  by (simp add: pushTarget_def Dep_target_def sum_state_def new_Watcher_lazy no_options_def
      init_state_def)





subsection \<open>The property proxy (C8)\<close>

lemma find_own:
  "obj_at h a = Some ob \<Longrightarrow> map_of (own ob) key = Some sl
     \<Longrightarrow> find_slot h (length h) (Some a) key = Inr (Some sl)"
  by (cases "length h") (auto simp: obj_at_def split: if_splits)

lemma lookup_own:
  "obj_at h a = Some ob \<Longrightarrow> map_of (own ob) key = Some sl
     \<Longrightarrow> lookup R h (HRef a) key = Inr (Some sl)"
  by (simp add: lookup_def find_own)


lemma proxy_installed:
  assumes "proxy h (HRef a) sourceKey key = Inr h'" and "obj_at h a = Some ob"
  shows "h' = h[a := ob\<lparr>own := AList.update key
                   (Accessor (Some (ProxyGetter sourceKey key))
                      (Some (ProxySetter sourceKey key)) True) (own ob)\<rparr>]"
  using assms by (simp add: proxy_def split: if_splits)


text \<open>
  A proxy installed under the name of its own source calls itself: with \<open>key\<close> for
  \<open>sourceKey\<close> the accessor replaces the source property, and a read through it exhausts
  the call stack, whatever room there was.
\<close>

lemma proxy_self_source:
  assumes "proxy h (HRef a) key key = Inr h'"
  shows "obj_get R h' depth (HRef a) key = Inl RangeError"
proof -
  from assms obtain ob where tgt: "obj_at h a = Some ob"
    by (auto simp: proxy_def split: option.splits)
  let ?acc = "Accessor (Some (ProxyGetter key key)) (Some (ProxySetter key key)) True"
  let ?ob' = "ob\<lparr>own := AList.update key ?acc (own ob)\<rparr>"
  have h': "h' = h[a := ?ob']"
    using proxy_installed [OF assms tgt] .
  have "obj_at h' a = Some ?ob'"
    using tgt by (simp add: h' obj_at_def split: if_splits)
  moreover have "map_of (own ?ob') key = Some ?acc"
    by (simp add: update_conv')
  ultimately have l_key: "lookup R h' (HRef a) key = Inr (Some ?acc)"
    by (rule lookup_own)
  show ?thesis
  proof (induction depth)
    case 0
    from l_key show ?case
      using obj_get.simps [of R h' 0 "HRef a" key] by simp
  next
    case (Suc d)
    with l_key show ?case
      using obj_get.simps [of R h' "Suc d" "HRef a" key] by simp
  qed
qed




end
